theory Spec2Isabelle
  imports Main "HOL-Library.Word" "HOL-Library.AList" "HOL-Library.Char_ord"
    "HOL-Library.List_Lexorder"
begin

unbundle bit_operations_syntax

section \<open>Machine types, errors and the environment\<close>

type_synonym byte = "8 word"
type_synonym uint32 = "32 word"
type_synonym uint64 = "64 word"

text \<open>
  An \<open>int64\<close> is kept as its 64 bits: \<open>int64(x)\<close> of a \<open>uint64\<close> is the same word, and
  \<open>sint\<close> reads its value.
\<close>

type_synonym int64 = "64 word"

text \<open>
  Go errors and panics as values. \<open>EOF\<close> is \<open>io.EOF\<close>; \<open>ErrClosed\<close>, \<open>ErrInvalid\<close> and
  \<open>ErrNotExist\<close> are the errors of package \<open>os\<close>; \<open>ErrSyntax\<close> and \<open>ErrRange\<close> those of
  \<open>strconv.ParseUint\<close>; \<open>ErrOffsetOutOfRange\<close> is the \<open>fmt.Errorf\<close> value of \<open>Log.Read\<close>;
  \<open>Panic\<close> stands for a run-time panic (slice bounds, index out of range, nil dereference).
\<close>

datatype error = EOF | ErrClosed | ErrInvalid | ErrNotExist | ErrSyntax | ErrRange
  | ErrOffsetOutOfRange uint64 | ErrProto | Panic

subsection \<open>\<open>encoding/binary\<close>, big endian\<close>

definition PutUint32 :: "uint32 \<Rightarrow> byte list" where
  "PutUint32 v = [ucast (drop_bit 24 v), ucast (drop_bit 16 v), ucast (drop_bit 8 v), ucast v]"

definition Uint32 :: "byte list \<Rightarrow> uint32" where
  "Uint32 b = (push_bit 24 (ucast (b ! 0)) OR push_bit 16 (ucast (b ! 1))
     OR push_bit 8 (ucast (b ! 2)) OR ucast (b ! 3))"

definition PutUint64 :: "uint64 \<Rightarrow> byte list" where
  "PutUint64 v = [ucast (drop_bit 56 v), ucast (drop_bit 48 v), ucast (drop_bit 40 v),
     ucast (drop_bit 32 v), ucast (drop_bit 24 v), ucast (drop_bit 16 v),
     ucast (drop_bit 8 v), ucast v]"

definition Uint64 :: "byte list \<Rightarrow> uint64" where
  "Uint64 b = (push_bit 56 (ucast (b ! 0)) OR push_bit 48 (ucast (b ! 1))
     OR push_bit 40 (ucast (b ! 2)) OR push_bit 32 (ucast (b ! 3))
     OR push_bit 24 (ucast (b ! 4)) OR push_bit 16 (ucast (b ! 5))
     OR push_bit 8 (ucast (b ! 6)) OR ucast (b ! 7))"

subsection \<open>Slices\<close>

text \<open>
  The slice expression \<open>a[lo:hi]\<close> panics unless \<open>lo \<le> hi \<le> len(a)\<close>; \<open>subslice\<close> reads it
  and \<open>put_slice\<close> is the write through it that \<open>PutUint32(a[lo:hi], v)\<close> performs.
\<close>

definition subslice :: "'a list \<Rightarrow> nat \<Rightarrow> nat \<Rightarrow> 'a list option" where
  "subslice a lo hi = (if lo \<le> hi \<and> hi \<le> length a then Some (take (hi - lo) (drop lo a)) else None)"

definition put_slice :: "'a list \<Rightarrow> nat \<Rightarrow> nat \<Rightarrow> 'a list \<Rightarrow> 'a list option" where
  "put_slice a lo hi bs =
     (if lo \<le> hi \<and> hi \<le> length a \<and> length bs \<le> hi - lo
      then Some (take lo a @ bs @ drop (lo + length bs) a) else None)"

subsection \<open>The log directory and \<open>os.File\<close>\<close>

text \<open>
  The directory of the log is a finite table from file names to file contents. An
  \<open>os.File\<close> is a handle: the name it was opened under and whether it has been closed. The
  contents stay in the directory, so they are shared by every handle on the same name.
  A closed handle fails with \<open>ErrClosed\<close>; a handle whose name has left the directory
  fails with \<open>ErrNotExist\<close>.
\<close>

type_synonym filesys = "(string \<times> byte list) list"

record File =
  Name :: string
  closed :: bool

definition resize :: "nat \<Rightarrow> byte list \<Rightarrow> byte list" where
  "resize n d = take n d @ replicate (n - length d) 0"

text \<open>\<open>os.OpenFile(name, O_RDWR|O_CREATE, 0644)\<close>: the file is created empty when missing.\<close>

definition os_OpenFile :: "filesys \<Rightarrow> string \<Rightarrow> filesys \<times> File" where
  "os_OpenFile fs name =
     (case map_of fs name of
        None \<Rightarrow> (AList.update name [] fs, \<lparr>Name = name, closed = False\<rparr>)
      | Some d \<Rightarrow> (fs, \<lparr>Name = name, closed = False\<rparr>))"

text \<open>\<open>os.Stat(name)\<close>, of which the code reads only \<open>Size()\<close>.\<close>

definition os_Stat :: "filesys \<Rightarrow> string \<Rightarrow> error + nat" where
  "os_Stat fs name = (case map_of fs name of None \<Rightarrow> Inl ErrNotExist | Some d \<Rightarrow> Inr (length d))"

text \<open>\<open>os.Truncate(name, n)\<close> with \<open>n\<close> an \<open>int64\<close>: a negative size is refused.\<close>

definition os_Truncate :: "filesys \<Rightarrow> string \<Rightarrow> int \<Rightarrow> filesys \<times> error option" where
  "os_Truncate fs name n =
     (case map_of fs name of
        None \<Rightarrow> (fs, Some ErrNotExist)
      | Some d \<Rightarrow> if n < 0 then (fs, Some ErrInvalid)
                  else (AList.update name (resize (nat n) d) fs, None))"

definition os_Remove :: "filesys \<Rightarrow> string \<Rightarrow> filesys \<times> error option" where
  "os_Remove fs name =
     (case map_of fs name of
        None \<Rightarrow> (fs, Some ErrNotExist)
      | Some d \<Rightarrow> (AList.delete name fs, None))"

definition File_Sync :: "File \<Rightarrow> error option" where
  "File_Sync f = (if closed f then Some ErrClosed else None)"

definition File_Truncate :: "filesys \<Rightarrow> File \<Rightarrow> int \<Rightarrow> filesys \<times> error option" where
  "File_Truncate fs f n =
     (if closed f then (fs, Some ErrClosed) else os_Truncate fs (Name f) n)"

definition File_Close :: "File \<Rightarrow> File \<times> error option" where
  "File_Close f = (if closed f then (f, Some ErrClosed) else (f\<lparr>closed := True\<rparr>, None))"

text \<open>
  \<open>f.Write(p)\<close> on a file opened with \<open>O_APPEND\<close>: the bytes go to the end of the file.
\<close>

definition File_Write :: "filesys \<Rightarrow> File \<Rightarrow> byte list \<Rightarrow> filesys \<times> error option" where
  "File_Write fs f p =
     (if closed f then (fs, Some ErrClosed)
      else case map_of fs (Name f) of
        None \<Rightarrow> (fs, Some ErrNotExist)
      | Some d \<Rightarrow> (AList.update (Name f) (d @ p) fs, None))"

text \<open>
  \<open>f.ReadAt(b, off)\<close> with \<open>len(b) = n\<close>: a negative offset is refused, an empty buffer
  reads nothing, and fewer than \<open>n\<close> bytes from \<open>off\<close> on is \<open>io.EOF\<close>.
\<close>

definition File_ReadAt :: "filesys \<Rightarrow> File \<Rightarrow> nat \<Rightarrow> int \<Rightarrow> error + byte list" where
  "File_ReadAt fs f n off =
     (if closed f then Inl ErrClosed
      else if off < 0 then Inl ErrInvalid
      else if n = 0 then Inr []
      else case map_of fs (Name f) of
        None \<Rightarrow> Inl ErrNotExist
      | Some d \<Rightarrow> if length (drop (nat off) d) < n then Inl EOF
                  else Inr (take n (drop (nat off) d)))"

subsection \<open>Configuration\<close>

text \<open>
  Modelled from the spec: the declaration of \<open>Config\<close> is not among the sources; the code
  reads \<open>c.Segment.MaxStoreBytes\<close>, \<open>c.Segment.MaxIndexBytes\<close> and
  \<open>c.Segment.InitialOffset\<close> as \<open>uint64\<close>.
\<close>

record SegmentConfig =
  MaxStoreBytes :: uint64
  MaxIndexBytes :: uint64
  InitialOffset :: uint64

record Config =
  Segment :: SegmentConfig

section \<open>The index (\<open>index.go\<close>)\<close>

definition offWidth :: uint64 where "offWidth = 4"
definition posWidth :: uint64 where "posWidth = 8"
definition entWidth :: uint64 where "entWidth = offWidth + posWidth"

record index =
  ifile :: File
  mmap :: "byte list"
  isize :: uint64

text \<open>
  \<open>gommap.Map(fd, PROT_READ|PROT_WRITE, MAP_SHARED)\<close> maps the whole file; the system
  call refuses a closed descriptor and a mapping of length 0.
\<close>

definition gommap_Map :: "filesys \<Rightarrow> File \<Rightarrow> error + byte list" where
  "gommap_Map fs f =
     (if closed f then Inl ErrClosed
      else case map_of fs (Name f) of
        None \<Rightarrow> Inl ErrNotExist
      | Some d \<Rightarrow> if d = [] then Inl ErrInvalid else Inr d)"

text \<open>
  \<open>mmap.Sync(MS_SYNC)\<close> writes the mapped pages back: the part of the mapping that lies
  inside the file replaces the file's bytes, and the file keeps its length. The source
  never unmaps, so the field \<open>mmap\<close> outlives \<open>Close\<close>; what the operating system does
  on access to mapped pages of a file that has been cut short since is not modelled,
  and no statement below reads or writes the mapping of a closed index.
\<close>

definition mmap_Sync :: "filesys \<Rightarrow> index \<Rightarrow> filesys" where
  "mmap_Sync fs i =
     (case map_of fs (Name (ifile i)) of
        None \<Rightarrow> fs
      | Some d \<Rightarrow> AList.update (Name (ifile i))
                    (take (length d) (mmap i) @ drop (length (mmap i)) d) fs)"

definition newIndex :: "filesys \<Rightarrow> File \<Rightarrow> Config \<Rightarrow> filesys \<times> (error + index)" where
  "newIndex fs f c =
     (case os_Stat fs (Name f) of
        Inl e \<Rightarrow> (fs, Inl e)
      | Inr fi_Size \<Rightarrow>
          (case os_Truncate fs (Name f) (sint (MaxIndexBytes (Segment c))) of
             (fs', Some e) \<Rightarrow> (fs', Inl e)
           | (fs', None) \<Rightarrow>
               (case gommap_Map fs' f of
                  Inl e \<Rightarrow> (fs', Inl e)
                | Inr m \<Rightarrow> (fs', Inr \<lparr>ifile = f, mmap = m, isize = of_nat fi_Size\<rparr>))))"

definition index_Close :: "filesys \<Rightarrow> index \<Rightarrow> filesys \<times> index \<times> error option" where
  "index_Close fs i =
     (let fs1 = mmap_Sync fs i in
      case File_Sync (ifile i) of
        Some e \<Rightarrow> (fs1, i, Some e)
      | None \<Rightarrow>
          (case File_Truncate fs1 (ifile i) (sint (isize i)) of
             (fs2, Some e) \<Rightarrow> (fs2, i, Some e)
           | (fs2, None) \<Rightarrow>
               (case File_Close (ifile i) of (f', r) \<Rightarrow> (fs2, i\<lparr>ifile := f'\<rparr>, r))))"

definition index_Name :: "index \<Rightarrow> string" where
  "index_Name i = Name (ifile i)"

text \<open>
  \<open>index.Read(in)\<close>. When \<open>in\<close> is not \<open>-1\<close> the entry number is taken from \<open>i.size\<close>, as
  the source has it (line 103).
\<close>

definition index_Read :: "index \<Rightarrow> int64 \<Rightarrow> error + uint32 \<times> uint64" where
  "index_Read i in' =
     (if isize i = 0 then Inl EOF
      else
        let off = (if in' = - 1 then (ucast (isize i div entWidth - 1) :: uint32)
                   else (ucast (isize i) :: uint32));
            pos = entWidth * (ucast off :: uint64)
        in if isize i < pos + entWidth then Inl EOF
           else
             (case subslice (mmap i) (unat pos) (unat (pos + offWidth)) of
                None \<Rightarrow> Inl Panic
              | Some b4 \<Rightarrow>
                  (case subslice (mmap i) (unat (pos + offWidth)) (unat (pos + entWidth)) of
                     None \<Rightarrow> Inl Panic
                   | Some b8 \<Rightarrow> Inr (Uint32 b4, Uint64 b8))))"

text \<open>
  \<open>index.Write(off, pos)\<close> returns the index as the call leaves it and the error.
\<close>

definition index_Write :: "index \<Rightarrow> uint32 \<Rightarrow> uint64 \<Rightarrow> index \<times> error option" where
  "index_Write i off pos =
     (if (of_nat (length (mmap i)) :: uint64) < isize i + entWidth then (i, Some EOF)
      else
        (case put_slice (mmap i) (unat (isize i)) (unat (isize i + offWidth)) (PutUint32 off) of
           None \<Rightarrow> (i, Some Panic)
         | Some m1 \<Rightarrow>
             (case put_slice m1 (unat (isize i + offWidth)) (unat (isize i + entWidth))
                     (PutUint64 pos) of
                None \<Rightarrow> (i\<lparr>mmap := m1\<rparr>, Some Panic)
              | Some m2 \<Rightarrow> (i\<lparr>mmap := m2, isize := isize i + entWidth\<rparr>, None))))"

section \<open>Records and their wire form\<close>

text \<open>
  Modelled from the spec: the declaration of \<open>api.Record\<close> is not among the sources; the
  code writes its field \<open>Offset\<close> (a \<open>uint64\<close>) and the spec calls the rest an opaque byte
  string. \<open>proto.Marshal\<close> and \<open>proto.Unmarshal\<close> belong to an external library and are
  parameters of the model.
\<close>

record Record =
  Value :: "byte list"
  Offset :: uint64

record proto =
  Marshal :: "Record \<Rightarrow> error + byte list"
  Unmarshal :: "byte list \<Rightarrow> error + Record"

section \<open>The store (\<open>store.go\<close>)\<close>

definition lenWidth :: uint64 where "lenWidth = 8"

text \<open>
  A \<open>bufio.Writer\<close> is the bytes it holds back and its sticky error: once a write to the
  file has failed, every later \<open>Write\<close> and \<open>Flush\<close> returns that error. The capacity of
  the buffer is not modelled: bytes reach the file at the next \<open>Flush\<close>, which every read
  of the store performs first.
\<close>

record store =
  sfile :: File
  buf :: "byte list"
  buf_err :: "error option"
  ssize :: uint64

definition bufio_Write :: "store \<Rightarrow> byte list \<Rightarrow> store \<times> error option" where
  "bufio_Write s p =
     (case buf_err s of
        Some e \<Rightarrow> (s, Some e)
      | None \<Rightarrow> (s\<lparr>buf := buf s @ p\<rparr>, None))"

definition bufio_Flush :: "filesys \<Rightarrow> store \<Rightarrow> filesys \<times> store \<times> error option" where
  "bufio_Flush fs s =
     (case buf_err s of
        Some e \<Rightarrow> (fs, s, Some e)
      | None \<Rightarrow>
          if buf s = [] then (fs, s, None)
          else (case File_Write fs (sfile s) (buf s) of
                  (fs', Some e) \<Rightarrow> (fs', s\<lparr>buf_err := Some e\<rparr>, Some e)
                | (fs', None) \<Rightarrow> (fs', s\<lparr>buf := []\<rparr>, None)))"

definition newStore :: "filesys \<Rightarrow> File \<Rightarrow> error + store" where
  "newStore fs f =
     (case os_Stat fs (Name f) of
        Inl e \<Rightarrow> Inl e
      | Inr fi_Size \<Rightarrow>
          Inr \<lparr>sfile = f, buf = [], buf_err = None, ssize = of_nat fi_Size\<rparr>)"

text \<open>\<open>store.Append(p)\<close> returns \<open>(n, pos, err)\<close>; here \<open>Inr (n, pos)\<close> or \<open>Inl err\<close>.\<close>

definition store_Append :: "store \<Rightarrow> byte list \<Rightarrow> store \<times> (error + uint64 \<times> uint64)" where
  "store_Append s p =
     (let pos = ssize s in
      case bufio_Write s (PutUint64 (of_nat (length p))) of
        (s1, Some e) \<Rightarrow> (s1, Inl e)
      | (s1, None) \<Rightarrow>
          (case bufio_Write s1 p of
             (s2, Some e) \<Rightarrow> (s2, Inl e)
           | (s2, None) \<Rightarrow>
               let w = of_nat (length p) + lenWidth
               in (s2\<lparr>ssize := ssize s2 + w\<rparr>, Inr (w, pos))))"

text \<open>
  \<open>store.Read(pos)\<close>. \<open>make([]byte, n)\<close> panics when \<open>n\<close> is not the value of an \<open>int\<close>.
\<close>

definition store_Read :: "filesys \<Rightarrow> store \<Rightarrow> uint64 \<Rightarrow> filesys \<times> store \<times> (error + byte list)" where
  "store_Read fs s pos =
     (case bufio_Flush fs s of
        (fs1, s1, Some e) \<Rightarrow> (fs1, s1, Inl e)
      | (fs1, s1, None) \<Rightarrow>
          (case File_ReadAt fs1 (sfile s1) (unat lenWidth) (sint pos) of
             Inl e \<Rightarrow> (fs1, s1, Inl e)
           | Inr size' \<Rightarrow>
               if 2 ^ 63 \<le> unat (Uint64 size') then (fs1, s1, Inl Panic)
               else (case File_ReadAt fs1 (sfile s1) (unat (Uint64 size')) (sint (pos + lenWidth)) of
                       Inl e \<Rightarrow> (fs1, s1, Inl e)
                     | Inr b \<Rightarrow> (fs1, s1, Inr b))))"

definition store_Close :: "filesys \<Rightarrow> store \<Rightarrow> filesys \<times> store \<times> error option" where
  "store_Close fs s =
     (case bufio_Flush fs s of
        (fs1, s1, Some e) \<Rightarrow> (fs1, s1, Some e)
      | (fs1, s1, None) \<Rightarrow>
          (case File_Close (sfile s1) of (f', r) \<Rightarrow> (fs1, s1\<lparr>sfile := f'\<rparr>, r)))"

definition store_Name :: "store \<Rightarrow> string" where
  "store_Name s = Name (sfile s)"

section \<open>The segment (\<open>segment.go\<close>)\<close>

record segment =
  store :: store
  index :: index
  baseOffset :: uint64
  nextOffset :: uint64
  config :: Config

text \<open>\<open>fmt.Sprintf("%d", n)\<close>: the decimal digits of \<open>n\<close>, no padding.\<close>

fun decimal :: "nat \<Rightarrow> string" where
  "decimal n = (if n < 10 then [''0123456789'' ! n]
                else decimal (n div 10) @ [''0123456789'' ! (n mod 10)])"

declare decimal.simps [simp del]

text \<open>
  \<open>newSegment(dir, baseOffset, c)\<close>; the directory is the table \<open>fs\<close>, and the files are
  named inside it.
\<close>

definition newSegment :: "filesys \<Rightarrow> uint64 \<Rightarrow> Config \<Rightarrow> filesys \<times> (error + segment)" where
  "newSegment fs baseOffset' c =
     (case os_OpenFile fs (decimal (unat baseOffset') @ ''.store'') of
        (fs1, storeFile) \<Rightarrow>
          (case newStore fs1 storeFile of
             Inl e \<Rightarrow> (fs1, Inl e)
           | Inr st \<Rightarrow>
               (case os_OpenFile fs1 (decimal (unat baseOffset') @ ''.index'') of
                  (fs2, indexFile) \<Rightarrow>
                    (case newIndex fs2 indexFile c of
                       (fs3, Inl e) \<Rightarrow> (fs3, Inl e)
                     | (fs3, Inr ix) \<Rightarrow>
                         (case index_Read ix (- 1) of
                            Inl e \<Rightarrow>
                              if e = Panic then (fs3, Inl Panic)
                              else (fs3, Inr \<lparr>store = st, index = ix, baseOffset = baseOffset',
                                      nextOffset = baseOffset', config = c\<rparr>)
                          | Inr (off, pos) \<Rightarrow>
                              (fs3, Inr \<lparr>store = st, index = ix, baseOffset = baseOffset',
                                 nextOffset = baseOffset' + ucast off + 1, config = c\<rparr>))))))"

text \<open>
  \<open>segment.Append(record)\<close> writes \<open>record.Offset\<close> before anything else, so the caller's
  record is returned as the call leaves it, next to \<open>(offset, err)\<close>. A failed index write
  ends in \<open>return 0, nil\<close> (line 105).
\<close>

definition segment_Append ::
  "proto \<Rightarrow> segment \<Rightarrow> Record \<Rightarrow> segment \<times> Record \<times> uint64 \<times> error option" where
  "segment_Append pb s record =
     (let cur = nextOffset s;
          record' = record\<lparr>Offset := cur\<rparr>
      in case Marshal pb record' of
           Inl e \<Rightarrow> (s, record', 0, Some e)
         | Inr r \<Rightarrow>
             (case store_Append (store s) r of
                (st, Inl e) \<Rightarrow> (s\<lparr>store := st\<rparr>, record', 0, Some e)
              | (st, Inr (n, pos)) \<Rightarrow>
                  (case index_Write (index s) (ucast (nextOffset s - baseOffset s)) pos of
                     (ix, Some e) \<Rightarrow>
                       if e = Panic then (s\<lparr>store := st, index := ix\<rparr>, record', 0, Some Panic)
                       else (s\<lparr>store := st, index := ix\<rparr>, record', 0, None)
                   | (ix, None) \<Rightarrow>
                       (s\<lparr>store := st, index := ix, nextOffset := nextOffset s + 1\<rparr>,
                        record', cur, None))))"

definition segment_Read ::
  "proto \<Rightarrow> filesys \<Rightarrow> segment \<Rightarrow> uint64 \<Rightarrow> filesys \<times> segment \<times> (error + Record)" where
  "segment_Read pb fs s off =
     (case index_Read (index s) (off - baseOffset s) of
        Inl e \<Rightarrow> (fs, s, Inl e)
      | Inr (_, pos) \<Rightarrow>
          (case store_Read fs (store s) pos of
             (fs', st, Inl e) \<Rightarrow> (fs', s\<lparr>store := st\<rparr>, Inl e)
           | (fs', st, Inr r) \<Rightarrow>
               (case Unmarshal pb r of
                  Inl e \<Rightarrow> (fs', s\<lparr>store := st\<rparr>, Inl e)
                | Inr record \<Rightarrow> (fs', s\<lparr>store := st\<rparr>, Inr record))))"

definition IsMaxed :: "segment \<Rightarrow> bool" where
  "IsMaxed s \<longleftrightarrow>
     ssize (store s) \<ge> MaxStoreBytes (Segment (config s)) \<or>
     isize (index s) \<ge> MaxIndexBytes (Segment (config s))"

definition segment_Close :: "filesys \<Rightarrow> segment \<Rightarrow> filesys \<times> segment \<times> error option" where
  "segment_Close fs s =
     (case store_Close fs (store s) of
        (fs1, st, Some e) \<Rightarrow> (fs1, s\<lparr>store := st\<rparr>, Some e)
      | (fs1, st, None) \<Rightarrow>
          (case index_Close fs1 (index s) of
             (fs2, ix, r) \<Rightarrow> (fs2, s\<lparr>store := st, index := ix\<rparr>, r)))"

definition segment_Remove :: "filesys \<Rightarrow> segment \<Rightarrow> filesys \<times> segment \<times> error option" where
  "segment_Remove fs s =
     (case segment_Close fs s of
        (fs1, s1, Some e) \<Rightarrow> (fs1, s1, Some e)
      | (fs1, s1, None) \<Rightarrow>
          (case os_Remove fs1 (index_Name (index s1)) of
             (fs2, Some e) \<Rightarrow> (fs2, s1, Some e)
           | (fs2, None) \<Rightarrow>
               (case os_Remove fs2 (store_Name (store s1)) of
                  (fs3, r) \<Rightarrow> (fs3, s1, r))))"

section \<open>The log (\<open>log.go\<close>)\<close>

text \<open>
  \<open>activeSegment\<close> and the elements of \<open>segments\<close> are pointers: addresses into \<open>heap\<close>,
  the segments allocated so far, so that a write through one pointer is seen through the
  other. \<open>Dir\<close> is a path in the source; here it is the directory found there, with
  \<open>DirExists\<close> telling whether there is one.
\<close>

record Log =
  DirExists :: bool
  Dir :: filesys
  Config :: Config
  heap :: "segment list"
  activeSegment :: "nat option"
  segments :: "nat list"

subsection \<open>File names\<close>

text \<open>\<open>path.Ext\<close> scans from the end for the last dot of the last path element.\<close>

fun Ext_scan :: "string \<Rightarrow> string \<Rightarrow> string" where
  "Ext_scan [] acc = []"
| "Ext_scan (c # cs) acc =
     (if c = CHR ''/'' then []
      else if c = CHR ''.'' then c # acc
      else Ext_scan cs (c # acc))"

definition path_Ext :: "string \<Rightarrow> string" where
  "path_Ext p = Ext_scan (rev p) []"

definition strings_TrimSuffix :: "string \<Rightarrow> string \<Rightarrow> string" where
  "strings_TrimSuffix s suffix' =
     (if length suffix' \<le> length s \<and> drop (length s - length suffix') s = suffix'
      then take (length s - length suffix') s else s)"

text \<open>
  \<open>strconv.ParseUint(s, 10, 0)\<close>: decimal digits only, no sign, and a value of 64 bits.
\<close>

fun ParseUint_digits :: "nat \<Rightarrow> string \<Rightarrow> error + nat" where
  "ParseUint_digits n [] = Inr n"
| "ParseUint_digits n (c # cs) =
     (if (of_char c :: nat) < 48 \<or> 57 < (of_char c :: nat) then Inl ErrSyntax
      else if 2 ^ 64 \<le> n * 10 + (of_char c - 48) then Inl ErrRange
      else ParseUint_digits (n * 10 + (of_char c - 48)) cs)"

definition strconv_ParseUint :: "string \<Rightarrow> error + uint64" where
  "strconv_ParseUint s =
     (if s = [] then Inl ErrSyntax
      else case ParseUint_digits 0 s of Inl e \<Rightarrow> Inl e | Inr n \<Rightarrow> Inr (of_nat n))"

subsection \<open>Construction\<close>

definition Log_newSegment :: "Log \<Rightarrow> uint64 \<Rightarrow> Log \<times> error option" where
  "Log_newSegment l off =
     (if \<not> DirExists l then (l, Some ErrNotExist)
      else case newSegment (Dir l) off (Config l) of
        (fs', Inl e) \<Rightarrow> (l\<lparr>Dir := fs'\<rparr>, Some e)
      | (fs', Inr s) \<Rightarrow>
          (l\<lparr>Dir := fs', heap := heap l @ [s],
             activeSegment := Some (length (heap l)),
             segments := segments l @ [length (heap l)]\<rparr>, None))"

text \<open>The first loop of \<open>setup\<close>: one base offset for each file name, or the first error.\<close>

fun setup_offsets :: "string list \<Rightarrow> error + uint64 list" where
  "setup_offsets [] = Inr []"
| "setup_offsets (name # files) =
     (case strconv_ParseUint (strings_TrimSuffix name (path_Ext name)) of
        Inl e \<Rightarrow> Inl e
      | Inr off \<Rightarrow>
          (case setup_offsets files of
             Inl e \<Rightarrow> Inl e
           | Inr baseOffsets \<Rightarrow> Inr (off # baseOffsets)))"

text \<open>
  The second loop of \<open>setup\<close>: \<open>i++\<close> in the body and again in the header, so every other
  element of the sorted offsets makes a segment.
\<close>

fun setup_segments :: "Log \<Rightarrow> uint64 list \<Rightarrow> Log \<times> error option" where
  "setup_segments l [] = (l, None)"
| "setup_segments l (off # baseOffsets) =
     (case Log_newSegment l off of
        (l', Some e) \<Rightarrow> (l', Some e)
      | (l', None) \<Rightarrow> setup_segments l' (drop 1 baseOffsets))"

text \<open>\<open>ioutil.ReadDir\<close> lists the directory sorted by file name.\<close>

definition Log_setup :: "Log \<Rightarrow> Log \<times> error option" where
  "Log_setup l =
     (if \<not> DirExists l then (l, Some ErrNotExist)
      else case setup_offsets (sort (map fst (Dir l))) of
        Inl e \<Rightarrow> (l, Some e)
      | Inr baseOffsets \<Rightarrow>
          (case setup_segments l (sort baseOffsets) of
             (l', Some e) \<Rightarrow> (l', Some e)
           | (l', None) \<Rightarrow>
               if segments l' = [] then Log_newSegment l' (InitialOffset (Segment (Config l')))
               else (l', None)))"

text \<open>
  \<open>NewLog(dir, c)\<close>; the directory at \<open>dir\<close> is given by \<open>exists\<close> and \<open>fs\<close>.
\<close>

definition NewLog :: "bool \<Rightarrow> filesys \<Rightarrow> Config \<Rightarrow> Log \<times> error option" where
  "NewLog exists fs c =
     (let c1 = (if MaxIndexBytes (Segment c) = 0
                then c\<lparr>Segment := (Segment c)\<lparr>MaxIndexBytes := 1024\<rparr>\<rparr> else c);
          c2 = (if MaxStoreBytes (Segment c1) = 0
                then c1\<lparr>Segment := (Segment c1)\<lparr>MaxStoreBytes := 1024\<rparr>\<rparr> else c1)
      in Log_setup \<lparr>DirExists = exists, Dir = fs, Config = c2, heap = [],
                     activeSegment = None, segments = []\<rparr>)"

subsection \<open>Operations\<close>

text \<open>
  \<open>Log.Append(record)\<close> returns the log, the caller's record as the call leaves it, and
  the pair \<open>(off, err)\<close>. An error of the segment ends in \<open>return 0, nil\<close> (line 115).
\<close>

definition Log_Append :: "proto \<Rightarrow> Log \<Rightarrow> Record \<Rightarrow> Log \<times> Record \<times> uint64 \<times> error option" where
  "Log_Append pb l record =
     (case activeSegment l of
        None \<Rightarrow> (l, record, 0, Some Panic)
      | Some a \<Rightarrow>
          (case segment_Append pb (heap l ! a) record of
             (s', record', off, Some e) \<Rightarrow>
               if e = Panic then (l\<lparr>heap := (heap l)[a := s']\<rparr>, record', 0, Some Panic)
               else (l\<lparr>heap := (heap l)[a := s']\<rparr>, record', 0, None)
           | (s', record', off, None) \<Rightarrow>
               if IsMaxed s'
               then (case Log_newSegment (l\<lparr>heap := (heap l)[a := s']\<rparr>) (off + 1) of
                       (l', err) \<Rightarrow> (l', record', off, err))
               else (l\<lparr>heap := (heap l)[a := s']\<rparr>, record', off, None)))"

definition Log_Read :: "proto \<Rightarrow> Log \<Rightarrow> uint64 \<Rightarrow> Log \<times> (error + Record)" where
  "Log_Read pb l off =
     (case find (\<lambda>a. baseOffset (heap l ! a) \<le> off \<and> off < nextOffset (heap l ! a))
             (segments l) of
        None \<Rightarrow> (l, Inl (ErrOffsetOutOfRange off))
      | Some a \<Rightarrow>
          if nextOffset (heap l ! a) \<le> off then (l, Inl (ErrOffsetOutOfRange off))
          else (case segment_Read pb (Dir l) (heap l ! a) off of
                  (fs', s', r) \<Rightarrow> (l\<lparr>Dir := fs', heap := (heap l)[a := s']\<rparr>, r)))"

fun Close_segments :: "Log \<Rightarrow> nat list \<Rightarrow> Log \<times> error option" where
  "Close_segments l [] = (l, None)"
| "Close_segments l (a # rest) =
     (case segment_Close (Dir l) (heap l ! a) of
        (fs', s', Some e) \<Rightarrow> (l\<lparr>Dir := fs', heap := (heap l)[a := s']\<rparr>, Some e)
      | (fs', s', None) \<Rightarrow> Close_segments (l\<lparr>Dir := fs', heap := (heap l)[a := s']\<rparr>) rest)"

definition Log_Close :: "Log \<Rightarrow> Log \<times> error option" where
  "Log_Close l = Close_segments l (segments l)"

text \<open>\<open>os.RemoveAll(l.Dir)\<close> removes the directory with all it holds.\<close>

definition Log_Remove :: "Log \<Rightarrow> Log \<times> error option" where
  "Log_Remove l =
     (case Log_Close l of
        (l', Some e) \<Rightarrow> (l', Some e)
      | (l', None) \<Rightarrow> (l'\<lparr>DirExists := False, Dir := []\<rparr>, None))"

text \<open>\<open>Log.Reset\<close> answers a failed \<open>Remove\<close> with \<open>return nil\<close> (line 184).\<close>

definition Log_Reset :: "Log \<Rightarrow> Log \<times> error option" where
  "Log_Reset l =
     (case Log_Remove l of
        (l', Some e) \<Rightarrow> (l', None)
      | (l', None) \<Rightarrow> Log_setup l')"

text \<open>Indexing an empty \<open>l.segments\<close> panics.\<close>

definition Log_LowestOffset :: "Log \<Rightarrow> error + uint64" where
  "Log_LowestOffset l =
     (case segments l of
        [] \<Rightarrow> Inl Panic
      | a # rest \<Rightarrow> Inr (baseOffset (heap l ! a)))"

definition Log_HighestOffset :: "Log \<Rightarrow> error + uint64" where
  "Log_HighestOffset l =
     (if segments l = [] then Inl Panic
      else let off = nextOffset (heap l ! last (segments l))
           in if off = 0 then Inr 0 else Inr (off - 1))"

text \<open>
  The loop of \<open>Log.Truncate\<close> over \<open>l.segments\<close>; \<open>kept\<close> is the local slice \<open>segments\<close>.
\<close>

fun Truncate_segments :: "Log \<Rightarrow> uint64 \<Rightarrow> nat list \<Rightarrow> nat list \<Rightarrow> Log \<times> nat list \<times> error option" where
  "Truncate_segments l lowest [] kept = (l, kept, None)"
| "Truncate_segments l lowest (a # rest) kept =
     (if nextOffset (heap l ! a) \<le> lowest + 1
      then (case segment_Remove (Dir l) (heap l ! a) of
              (fs', s', Some e) \<Rightarrow> (l\<lparr>Dir := fs', heap := (heap l)[a := s']\<rparr>, kept, Some e)
            | (fs', s', None) \<Rightarrow>
                Truncate_segments (l\<lparr>Dir := fs', heap := (heap l)[a := s']\<rparr>) lowest rest kept)
      else Truncate_segments l lowest rest (kept @ [a]))"

definition Log_Truncate :: "Log \<Rightarrow> uint64 \<Rightarrow> Log \<times> error option" where
  "Log_Truncate l lowest =
     (case Truncate_segments l lowest (segments l) [] of
        (l', kept, Some e) \<Rightarrow> (l', Some e)
      | (l', kept, None) \<Rightarrow> (l'\<lparr>segments := kept\<rparr>, None))"

section \<open>Notions of the statements\<close>

text \<open>
  A segment counts as removed, in a directory, when both its files are closed and
  neither name is left in the directory.
\<close>

definition removed :: "filesys \<Rightarrow> segment \<Rightarrow> bool" where
  "removed fs s \<longleftrightarrow>
     closed (sfile (store s)) \<and> closed (ifile (index s)) \<and>
     map_of fs (store_Name (store s)) = None \<and> map_of fs (index_Name (index s)) = None"

text \<open>
  A next offset lies above the watermark \<open>lowest\<close> when it is greater than
  \<open>lowest + 1\<close>, the numbers taken as integers; at \<open>lowest = 2 ^ 64 - 1\<close>, where the
  \<open>uint64\<close> sum \<open>lowest + 1\<close> of the source is 0, when it is greater than 0.
\<close>

definition above_watermark :: "uint64 \<Rightarrow> uint64 \<Rightarrow> bool" where
  "above_watermark lowest next \<longleftrightarrow>
     (if lowest = - 1 then 0 < unat next else unat lowest + 1 < unat next)"

text \<open>No file name comes into being from \<open>fs\<close> to \<open>fs'\<close>.\<close>

definition shrinks :: "filesys \<Rightarrow> filesys \<Rightarrow> bool" where
  "shrinks fs fs' \<longleftrightarrow> (\<forall>n. map_of fs n = None \<longrightarrow> map_of fs' n = None)"

text \<open>The twelve bytes of an index entry, and a sequence of \<open>index.Write\<close> calls.\<close>

definition entry_bytes :: "uint32 \<times> uint64 \<Rightarrow> byte list" where
  "entry_bytes e = PutUint32 (fst e) @ PutUint64 (snd e)"

fun index_Writes :: "index \<Rightarrow> (uint32 \<times> uint64) list \<Rightarrow> index \<times> error option" where
  "index_Writes i [] = (i, None)"
| "index_Writes i (e # es) =
     (case index_Write i (fst e) (snd e) of
        (i', Some err) \<Rightarrow> (i', Some err)
      | (i', None) \<Rightarrow> index_Writes i' es)"

text \<open>
  The life cycle that \<open>TestIndex\<close> walks through, with the entries as a parameter: open
  the file \<open>name\<close>, build the index, write the entries, close, look at the size of the
  file, open the file again and build the index again. The result is the size of the
  file after the close and the second index, or the first error.
\<close>

definition index_reopen ::
  "filesys \<Rightarrow> string \<Rightarrow> Config \<Rightarrow> (uint32 \<times> uint64) list \<Rightarrow> error + nat \<times> index" where
  "index_reopen fs name c es =
     (case os_OpenFile fs name of
        (fs0, f) \<Rightarrow>
          (case newIndex fs0 f c of
             (fs1, Inl e) \<Rightarrow> Inl e
           | (fs1, Inr i0) \<Rightarrow>
               (case index_Writes i0 es of
                  (i1, Some e) \<Rightarrow> Inl e
                | (i1, None) \<Rightarrow>
                    (case index_Close fs1 i1 of
                       (fs2, i2, Some e) \<Rightarrow> Inl e
                     | (fs2, i2, None) \<Rightarrow>
                         (case os_Stat fs2 name of
                            Inl e \<Rightarrow> Inl e
                          | Inr n \<Rightarrow>
                              (case os_OpenFile fs2 name of
                                 (fs3, f') \<Rightarrow>
                                   (case newIndex fs3 f' c of
                                      (fs4, Inl e) \<Rightarrow> Inl e
                                    | (fs4, Inr i3) \<Rightarrow> Inr (n, i3))))))))"

section \<open>Inputs of the runs\<close>

text \<open>
  The states of \<open>TestIndex\<close> (\<open>index_test.go\<close>): an index over an empty file with
  \<open>MaxIndexBytes = 1024\<close>, then with the entries \<open>(0, 0)\<close> and \<open>(1, 10)\<close> written.
\<close>

definition test_config :: Config where
  "test_config = \<lparr>Segment = \<lparr>MaxStoreBytes = 0, MaxIndexBytes = 1024, InitialOffset = 0\<rparr>\<rparr>"

definition test_file :: File where
  "test_file = \<lparr>Name = ''index_test'', closed = False\<rparr>"

definition test_idx0 :: index where
  "test_idx0 = \<lparr>ifile = test_file, mmap = replicate 1024 0, isize = 0\<rparr>"

definition test_idx1 :: index where
  "test_idx1 = \<lparr>ifile = test_file,
     mmap = PutUint32 0 @ PutUint64 0 @ replicate 1012 0, isize = 12\<rparr>"

definition test_idx2 :: index where
  "test_idx2 = \<lparr>ifile = test_file,
     mmap = PutUint32 0 @ PutUint64 0 @ PutUint32 1 @ PutUint64 10 @ replicate 1000 0,
     isize = 24\<rparr>"

text \<open>
  A stand-in for the protobuf wire form, for the runs that need one: the offset in eight
  bytes, then the value.
\<close>

definition wire :: proto where
  "wire = \<lparr>Marshal = (\<lambda>r. Inr (PutUint64 (Offset r) @ Value r)),
           Unmarshal = (\<lambda>b. if length b < 8 then Inl ErrProto
                              else Inr \<lparr>Value = drop 8 b, Offset = Uint64 (take 8 b)\<rparr>)\<rparr>"

definition hello :: Record where
  "hello = \<lparr>Value = [104, 101, 108, 108, 111], Offset = 0\<rparr>"

text \<open>
  \<open>config0\<close> leaves every field at its zero value, so \<open>NewLog\<close> puts in 1024 for both
  caps. \<open>config16\<close> caps the index at 16 bytes: room for one entry of 12, with 4 to spare.
\<close>

definition config0 :: Config where
  "config0 = \<lparr>Segment = \<lparr>MaxStoreBytes = 0, MaxIndexBytes = 0, InitialOffset = 0\<rparr>\<rparr>"

definition config16 :: Config where
  "config16 = \<lparr>Segment = \<lparr>MaxStoreBytes = 1024, MaxIndexBytes = 16, InitialOffset = 0\<rparr>\<rparr>"

text \<open>
  Scenario E of the specification, as far as the code lets it come about: with the index
  capped at three entries, seven appends leave three segments with next offsets 3, 6
  and 7.
\<close>

definition config36 :: Config where
  "config36 = \<lparr>Segment = \<lparr>MaxStoreBytes = 1024, MaxIndexBytes = 36, InitialOffset = 0\<rparr>\<rparr>"

definition scenario_E :: Log where
  "scenario_E = fold (\<lambda>r l. fst (Log_Append wire l r))
     [hello, hello, hello, hello, hello, hello, hello] (fst (NewLog True [] config36))"

text \<open>
  An index of \<open>2 ^ 32 + 1\<close> entries: \<open>2 ^ 32\<close> times \<open>(0, 0)\<close>, then \<open>(0, 1)\<close>, under a cap
  of exactly that many entries.
\<close>

definition big_config :: Config where
  "big_config = \<lparr>Segment = \<lparr>MaxStoreBytes = 0, MaxIndexBytes = 51539607564, InitialOffset = 0\<rparr>\<rparr>"

definition big_entries :: "(uint32 \<times> uint64) list" where
  "big_entries = replicate 4294967296 (0, 0) @ [(0, 1)]"

definition big_index :: index where
  "big_index = \<lparr>ifile = \<lparr>Name = ''index_test'', closed = False\<rparr>,
     mmap = concat (map entry_bytes big_entries), isize = 51539607564\<rparr>"

text \<open>
  Two index files that are not new: one holding the two entries of \<open>TestIndex\<close>,
  opened under a cap of 12 bytes, with the index that comes back from the life cycle;
  and one of five bytes that are no entry, with the index that comes back after the
  entry \<open>(0, 7)\<close> has been written.
\<close>

definition config12 :: Config where
  "config12 = \<lparr>Segment = \<lparr>MaxStoreBytes = 0, MaxIndexBytes = 12, InitialOffset = 0\<rparr>\<rparr>"

definition two_entries :: "byte list" where
  "two_entries = entry_bytes (0, 0) @ entry_bytes (1, 10)"

definition cut_index :: index where
  "cut_index = \<lparr>ifile = \<lparr>Name = ''index_test'', closed = False\<rparr>,
     mmap = entry_bytes (0, 0), isize = 24\<rparr>"

definition odd_index :: index where
  "odd_index = \<lparr>ifile = \<lparr>Name = ''index_test'', closed = False\<rparr>,
     mmap = [1, 2, 3, 4, 5] @ entry_bytes (0, 7) @ replicate 1007 0, isize = 17\<rparr>"

section \<open>Unfolding the model\<close>

lemmas os_defs = os_OpenFile_def os_Stat_def os_Truncate_def os_Remove_def File_Sync_def
  File_Truncate_def File_Close_def File_Write_def File_ReadAt_def resize_def gommap_Map_def
  mmap_Sync_def subslice_def put_slice_def

lemmas index_defs = newIndex_def index_Close_def index_Name_def index_Read_def index_Write_def
  offWidth_def posWidth_def entWidth_def

lemmas store_defs = bufio_Write_def bufio_Flush_def newStore_def store_Append_def
  store_Read_def store_Close_def store_Name_def lenWidth_def

lemmas segment_defs = newSegment_def segment_Append_def segment_Read_def IsMaxed_def
  segment_Close_def segment_Remove_def

lemmas log_defs = Log_newSegment_def Log_setup_def NewLog_def Log_Append_def Log_Read_def
  Log_Close_def Log_Remove_def Log_Reset_def Log_LowestOffset_def Log_HighestOffset_def
  Log_Truncate_def path_Ext_def strings_TrimSuffix_def strconv_ParseUint_def

lemmas enc_defs = PutUint32_def PutUint64_def Uint32_def Uint64_def

lemma decimal_digits: "decimal 0 = ''0''" "decimal 1 = ''1''" "decimal 3 = ''3''"
  "decimal 6 = ''6''"
  by (simp_all add: decimal.simps)

lemmas run_defs = log_defs segment_defs store_defs index_defs os_defs enc_defs
  config0_def config16_def config36_def wire_def hello_def decimal_digits Let_def

section \<open>Bytes and slices\<close>

lemma length_PutUint32: "length (PutUint32 v) = 4"
  by (simp add: PutUint32_def)

lemma length_PutUint64: "length (PutUint64 v) = 8"
  by (simp add: PutUint64_def)

lemma bit_byte_of_uint32:
  "k + 8 \<le> 32 \<Longrightarrow>
   bit (push_bit k (ucast (ucast (drop_bit k (v :: uint32)) :: byte)) :: uint32) n
     \<longleftrightarrow> k \<le> n \<and> n < k + 8 \<and> bit v n"
  by (auto simp: bit_simps)

lemma Uint32_PutUint32: "Uint32 (PutUint32 v) = v"
proof (rule bit_word_eqI)
  fix n assume n: "n < LENGTH(32)"
  have low: "bit (ucast (ucast v :: byte) :: uint32) n \<longleftrightarrow> n < 8 \<and> bit v n"
    by (auto simp: bit_simps)
  show "bit (Uint32 (PutUint32 v)) n = bit v n"
    unfolding Uint32_def PutUint32_def
    using n by (simp add: bit_or_iff bit_byte_of_uint32 low) arith
qed

lemma bit_byte_of_uint64:
  "k + 8 \<le> 64 \<Longrightarrow>
   bit (push_bit k (ucast (ucast (drop_bit k (v :: uint64)) :: byte)) :: uint64) n
     \<longleftrightarrow> k \<le> n \<and> n < k + 8 \<and> bit v n"
  by (auto simp: bit_simps)

lemma Uint64_PutUint64: "Uint64 (PutUint64 v) = v"
proof (rule bit_word_eqI)
  fix n assume n: "n < LENGTH(64)"
  have low: "bit (ucast (ucast v :: byte) :: uint64) n \<longleftrightarrow> n < 8 \<and> bit v n"
    by (auto simp: bit_simps)
  show "bit (Uint64 (PutUint64 v)) n = bit v n"
    unfolding Uint64_def PutUint64_def
    using n by (simp add: bit_or_iff bit_byte_of_uint64 low) arith
qed

lemma unat_of_nat64: "n < 2 ^ 64 \<Longrightarrow> unat (of_nat n :: uint64) = n"
  by (simp add: unat_of_nat)

lemma unat_ucast_down32: "unat (ucast (w :: uint64) :: uint32) = unat w mod 2 ^ 32"
  by (simp add: unsigned_ucast_eq take_bit_eq_mod)

lemma unat_ucast_up64: "unat (ucast (w :: uint32) :: uint64) = unat w"
proof -
  have "unat w < 2 ^ 32" using unsigned_less [of w] by simp
  then show ?thesis by (simp add: unsigned_ucast_eq take_bit_eq_mod)
qed

lemma sint_nonneg:
  assumes "0 \<le> sint (w :: uint64)"
  shows "nat (sint w) = unat w" and "unat w < 2 ^ 63"
proof -
  have lt: "sint w < 2 ^ 63" using sint_lt [of w] by simp
  then have "take_bit 64 (sint w) = sint w"
    using assms by (simp add: take_bit_int_eq_self)
  with uint_sint [of w] have eq: "uint w = sint w" by simp
  show "nat (sint w) = unat w" using eq by (simp add: unat_eq_nat_uint)
  have "uint w < 2 ^ 63" using eq lt by simp
  then have "int (unat w) < int (2 ^ 63)" by simp
  then show "unat w < 2 ^ 63" by (rule of_nat_less_iff [THEN iffD1])
qed

lemma sint_of_nat_small: "n < 2 ^ 63 \<Longrightarrow> sint (of_nat n :: uint64) = int n"
  by (simp only: signed_of_nat) (simp add: signed_take_bit_int_eq_self)

section \<open>The index\<close>

lemma index_Write_eq:
  assumes "length (mmap i) < 2 ^ 63" and "unat (isize i) < 2 ^ 63"
  shows "index_Write i off pos =
     (if length (mmap i) < unat (isize i) + 12 then (i, Some EOF)
      else (i\<lparr>mmap := take (unat (isize i)) (mmap i) @ PutUint32 off @ PutUint64 pos
                        @ drop (unat (isize i) + 12) (mmap i),
              isize := isize i + 12\<rparr>, None))"
proof -
  have a: "unat (isize i + 12) = unat (isize i) + 12" "unat (isize i + 4) = unat (isize i) + 4"
    using assms(2) by (simp_all add: unat_word_ariths)
  have b: "unat (of_nat (length (mmap i)) :: uint64) = length (mmap i)"
    using assms(1) by (simp add: unat_of_nat)
  have c: "((of_nat (length (mmap i)) :: uint64) < isize i + 12)
             = (length (mmap i) < unat (isize i) + 12)"
    by (simp add: word_less_nat_alt a b)
  show ?thesis
    by (simp add: index_Write_def entWidth_def offWidth_def posWidth_def c put_slice_def a
        length_PutUint32 length_PutUint64 min_def add.commute)
qed

text \<open>
  Claim C5. \<open>index.Write(rel_off, pos)\<close> on an index of logical size \<open>s\<close> and mapped length
  \<open>mmap_len\<close> fails exactly when \<open>mmap_len < s + 12\<close>, and then leaves the index as it was;
  otherwise bytes \<open>[s, s+4)\<close> of the mapping become \<open>rel_off\<close> in big endian, bytes
  \<open>[s+4, s+12)\<close> become \<open>pos\<close> in big endian, every other byte stays, and the size grows by
  exactly 12. The two premises say that the length of the mapping is the value of a Go
  \<open>int\<close> and the size that of an \<open>int64\<close> file length, as they are in every index that
  \<open>newIndex\<close> builds.
\<close>

theorem index_Write_spec:
  assumes "length (mmap i) < 2 ^ 63" and "unat (isize i) < 2 ^ 63"
  shows "index_Write i rel_off pos =
     (if length (mmap i) < unat (isize i) + 12 then (i, Some EOF)
      else (i\<lparr>mmap := take (unat (isize i)) (mmap i) @ PutUint32 rel_off @ PutUint64 pos
                        @ drop (unat (isize i) + 12) (mmap i),
              isize := isize i + 12\<rparr>, None))
     \<and> unat (isize i + 12) = unat (isize i) + 12"
  using assms index_Write_eq [OF assms] by (simp add: unat_word_ariths)

theorem index_Write_spec_witness:
  "length (mmap test_idx1) < 2 ^ 63 \<and> unat (isize test_idx1) < 2 ^ 63 \<and>
   index_Write test_idx1 1 10 = (test_idx2, None) \<and>
   index_Write (test_idx2\<lparr>mmap := take 24 (mmap test_idx2)\<rparr>) 2 20
     = (test_idx2\<lparr>mmap := take 24 (mmap test_idx2)\<rparr>, Some EOF)"
  using index_Write_spec [of test_idx1 1 10]
    index_Write_spec [of "test_idx2\<lparr>mmap := take 24 (mmap test_idx2)\<rparr>" 2 20]
  by (simp add: test_idx1_def test_idx2_def length_PutUint32 length_PutUint64)

text \<open>
  Claim C2. \<open>index.Read(n)\<close> with \<open>n \<ge> 0\<close> is to return entry \<open>n\<close> when the index holds more
  than \<open>n\<close> entries. The run of \<open>TestIndex\<close>: after \<open>Write(0, 0)\<close> the call \<open>Read(0)\<close> is
  \<open>io.EOF\<close>, and after \<open>Write(1, 10)\<close> so are \<open>Read(0)\<close> and \<open>Read(1)\<close>, while \<open>Read(-1)\<close>
  returns the last entry \<open>(1, 10)\<close>.
\<close>

theorem index_Read_test_run:
  "newIndex [(''index_test'', [])] test_file test_config
     = ([(''index_test'', replicate 1024 0)], Inr test_idx0) \<and>
   index_Write test_idx0 0 0 = (test_idx1, None) \<and>
   index_Read test_idx1 0 = Inl EOF \<and>
   index_Write test_idx1 1 10 = (test_idx2, None) \<and>
   index_Read test_idx2 0 = Inl EOF \<and>
   index_Read test_idx2 1 = Inl EOF \<and>
   index_Read test_idx2 (- 1) = Inr (1, 10)"
proof -
  have "newIndex [(''index_test'', [])] test_file test_config
          = ([(''index_test'', replicate 1024 0)], Inr test_idx0)"
    by (simp add: newIndex_def os_Stat_def os_Truncate_def gommap_Map_def test_file_def
        test_config_def test_idx0_def resize_def)
  moreover have "index_Write test_idx0 0 0 = (test_idx1, None)"
    by (simp add: index_Write_def test_idx0_def test_idx1_def entWidth_def offWidth_def
        posWidth_def put_slice_def PutUint32_def PutUint64_def)
  moreover have "index_Write test_idx1 1 10 = (test_idx2, None)"
    by (simp add: index_Write_def test_idx1_def test_idx2_def entWidth_def offWidth_def
        posWidth_def put_slice_def PutUint32_def PutUint64_def)
  moreover have "index_Read test_idx1 0 = Inl EOF" "index_Read test_idx2 0 = Inl EOF"
    "index_Read test_idx2 1 = Inl EOF"
    by (simp_all add: index_Read_def test_idx1_def test_idx2_def entWidth_def offWidth_def
        posWidth_def)
  moreover have "index_Read test_idx2 (- 1) = Inr (1, 10)"
    by (simp add: index_Read_def test_idx2_def entWidth_def offWidth_def posWidth_def
        subslice_def PutUint32_def PutUint64_def Uint32_def Uint64_def)
  ultimately show ?thesis by simp
qed

text \<open>
  What \<open>index.Read\<close> does with a non-negative argument in general: the argument is not
  used, and as long as the size fits 32 bits the call is \<open>io.EOF\<close>; so is every
  \<open>segment.Read\<close> through it.
\<close>

lemma index_Read_entry_number_unused:
  "n \<noteq> - 1 \<Longrightarrow> n' \<noteq> - 1 \<Longrightarrow> index_Read i n = index_Read i n'"
  by (simp add: index_Read_def)

lemma index_Read_nonneg_EOF:
  assumes "n \<noteq> - 1" and "unat (isize i) < 2 ^ 32"
  shows "index_Read i n = Inl EOF"
proof (cases "isize i = 0")
  case True
  then show ?thesis by (simp add: index_Read_def)
next
  case False
  have u: "unat (ucast (ucast (isize i) :: uint32) :: uint64) = unat (isize i)"
    using assms(2) by (simp add: unat_ucast_up64 unat_ucast_down32)
  have p: "unat (12 * (ucast (ucast (isize i) :: uint32) :: uint64)) = 12 * unat (isize i)"
    using assms(2) u by (simp add: unat_word_ariths)
  have "unat (12 * (ucast (ucast (isize i) :: uint32) :: uint64) + 12) = 12 * unat (isize i) + 12"
    using assms(2) p by (simp add: unat_word_ariths)
  then have "isize i < 12 * (ucast (ucast (isize i) :: uint32) :: uint64) + 12"
    by (simp add: word_less_nat_alt)
  then show ?thesis
    using assms(1) False
    by (simp add: index_Read_def entWidth_def offWidth_def posWidth_def Let_def)
qed

lemma segment_Read_EOF:
  assumes "off - baseOffset s \<noteq> - 1" and "unat (isize (index s)) < 2 ^ 32"
  shows "segment_Read pb fs s off = (fs, s, Inl EOF)"
  using index_Read_nonneg_EOF [OF assms] by (simp add: segment_Read_def)

lemma length_entry_bytes: "length (entry_bytes e) = 12"
  by (simp add: entry_bytes_def length_PutUint32 length_PutUint64)

lemma length_concat_entries: "length (concat (map entry_bytes es)) = 12 * length es"
  by (induction es) (simp_all add: length_entry_bytes)

lemma index_Writes_eq:
  "length (mmap i) < 2 ^ 63 \<Longrightarrow> unat (isize i) \<le> length (mmap i) \<Longrightarrow>
   (unat (isize i) + 12 * length es \<le> length (mmap i) \<longrightarrow>
      index_Writes i es =
        (i\<lparr>mmap := take (unat (isize i)) (mmap i) @ concat (map entry_bytes es)
                        @ drop (unat (isize i) + 12 * length es) (mmap i),
            isize := isize i + of_nat (12 * length es)\<rparr>, None)) \<and>
   (\<not> unat (isize i) + 12 * length es \<le> length (mmap i) \<longrightarrow>
      snd (index_Writes i es) = Some EOF)"
proof (induction es arbitrary: i)
  case Nil
  then show ?case by simp
next
  case (Cons e es)
  define s where "s = unat (isize i)"
  define m where "m = mmap i"
  define m' where "m' = take s m @ entry_bytes e @ drop (s + 12) m"
  define i' where "i' = i\<lparr>mmap := m', isize := isize i + 12\<rparr>"
  have sz: "unat (isize i) < 2 ^ 63" using Cons.prems by simp
  have w: "index_Write i (fst e) (snd e) = (if length m < s + 12 then (i, Some EOF) else (i', None))"
    using index_Write_eq [OF Cons.prems(1) sz, of "fst e" "snd e"]
    by (simp add: s_def m_def m'_def i'_def entry_bytes_def)
  show ?case
  proof (cases "length m < s + 12")
    case True
    then show ?thesis using w by (simp add: s_def m_def)
  next
    case False
    have u: "unat (isize i') = s + 12"
      using sz by (simp add: i'_def s_def unat_word_ariths)
    have mi: "mmap i' = m'" by (simp add: i'_def)
    have len: "length m' = length m"
      using False by (simp add: m'_def length_entry_bytes)
    have p1: "length (mmap i') < 2 ^ 63" using len Cons.prems(1) by (simp add: mi m_def)
    have p2: "unat (isize i') \<le> length (mmap i')" using False u len by (simp add: mi)
    have step: "index_Writes i (e # es) = index_Writes i' es"
      using w False by simp
    have tk: "take (s + 12) m' = take s m @ entry_bytes e"
      using False by (simp add: m'_def length_entry_bytes)
    have dr: "drop (s + 12 + 12 * length es) m' = drop (s + 12 + 12 * length es) m"
      using False by (simp add: m'_def length_entry_bytes add.commute)
    have rec: "i'\<lparr>mmap := X, isize := isize i' + of_nat (12 * length es)\<rparr>
             = i\<lparr>mmap := X, isize := isize i + of_nat (12 * length (e # es))\<rparr>" for X
      by (simp add: i'_def)
    have cond: "(unat (isize i) + 12 * length (e # es) \<le> length (mmap i))
                 = (s + 12 + 12 * length es \<le> length m)"
      unfolding s_def m_def by auto
    have a: "take (unat (isize i)) (mmap i) @ concat (map entry_bytes (e # es))
                @ drop (unat (isize i) + 12 * length (e # es)) (mmap i)
            = take (s + 12) m' @ concat (map entry_bytes es) @ drop (s + 12 + 12 * length es) m'"
      unfolding tk dr by (simp add: s_def m_def ac_simps)
    from Cons.IH [OF p1 p2]
    have ih: "(s + 12 + 12 * length es \<le> length m \<longrightarrow>
        index_Writes i' es =
         (i'\<lparr>mmap := take (s + 12) m' @ concat (map entry_bytes es)
                        @ drop (s + 12 + 12 * length es) m',
               isize := isize i' + of_nat (12 * length es)\<rparr>, None)) \<and>
       (\<not> s + 12 + 12 * length es \<le> length m \<longrightarrow> snd (index_Writes i' es) = Some EOF)"
      unfolding u mi len .
    show ?thesis
      unfolding step cond a using ih unfolding rec by blast
  qed
qed


lemma drop_concat_entries:
  "k \<le> length es \<Longrightarrow>
   drop (12 * k) (concat (map entry_bytes es)) = concat (map entry_bytes (drop k es))"
proof (induction es arbitrary: k)
  case Nil
  then show ?case by simp
next
  case (Cons e es)
  show ?case
  proof (cases k)
    case 0
    then show ?thesis by simp
  next
    case (Suc k')
    then have "k' \<le> length es" using Cons.prems by simp
    from Cons.IH [OF this] show ?thesis
      by (simp add: Suc length_entry_bytes)
  qed
qed

lemma entry_at:
  assumes "k < length es"
  shows "take 12 (drop (12 * k) (concat (map entry_bytes es) @ pad)) = entry_bytes (es ! k)"
proof -
  have "12 * k \<le> length (concat (map entry_bytes es))"
    using assms by (simp add: length_concat_entries)
  then have "drop (12 * k) (concat (map entry_bytes es) @ pad)
               = concat (map entry_bytes (drop k es)) @ pad"
    using assms by (simp add: drop_concat_entries)
  also have "drop k es = es ! k # drop (Suc k) es"
    using assms by (simp add: Cons_nth_drop_Suc)
  finally show ?thesis by (simp add: length_entry_bytes)
qed

lemma index_Read_last:
  assumes m: "mmap i = concat (map entry_bytes es) @ pad"
      and w: "isize i = of_nat (12 * length es)"
      and ne: "es \<noteq> []"
      and bound: "12 * length es < 2 ^ 63"
  shows "index_Read i (- 1) = Inr (es ! ((length es - 1) mod 2 ^ 32))"
proof -
  define e where "e = length es"
  define k where "k = (e - 1) mod 2 ^ 32"
  have e1: "1 \<le> e" using ne by (simp add: e_def Suc_leI)
  have uw: "unat (isize i) = 12 * e"
    unfolding w e_def by (rule unat_of_nat64) (use bound in simp)
  have nz: "isize i \<noteq> 0" using uw e1 by auto
  have ud: "unat (isize i div 12) = e" by (simp add: unat_div uw)
  have ud1: "unat (isize i div 12 - 1) = e - 1"
    using ud e1 by (simp add: unat_sub word_le_nat_alt)
  have uoff: "unat (ucast (isize i div 12 - 1) :: uint32) = k"
    by (simp add: unat_ucast_down32 ud1 k_def)
  have kb: "k < 2 ^ 32" by (simp add: k_def)
  have ke: "k \<le> e - 1" by (simp add: k_def)
  have kl: "k < length es" using ke e1 by (simp add: e_def)
  have uoff64: "unat (ucast (ucast (isize i div 12 - 1) :: uint32) :: uint64) = k"
    using uoff by (simp add: unat_ucast_up64)
  define pos where "pos = (12 :: uint64) * ucast (ucast (isize i div 12 - 1) :: uint32)"
  have upos: "unat pos = 12 * k"
    using kb uoff64 by (simp add: pos_def unat_word_ariths)
  have upos4: "unat (pos + 4) = 12 * k + 4" and upos12: "unat (pos + 12) = 12 * k + 12"
    using kb upos by (simp_all add: unat_word_ariths)
  have nlt: "\<not> isize i < pos + 12"
    using ke e1 by (simp add: word_less_nat_alt uw upos12)
  have lenm: "12 * k + 12 \<le> length (mmap i)"
    using kl by (simp add: m length_concat_entries e_def)
  have ent: "take 12 (drop (12 * k) (mmap i)) = entry_bytes (es ! k)"
    unfolding m using kl by (rule entry_at)
  have b4: "take 4 (drop (12 * k) (mmap i)) = PutUint32 (fst (es ! k))"
  proof -
    have "take 4 (drop (12 * k) (mmap i)) = take 4 (take 12 (drop (12 * k) (mmap i)))"
      by simp
    also have "\<dots> = PutUint32 (fst (es ! k))"
      unfolding ent by (simp add: entry_bytes_def length_PutUint32)
    finally show ?thesis .
  qed
  have b8: "take 8 (drop (12 * k + 4) (mmap i)) = PutUint64 (snd (es ! k))"
  proof -
    have "take 8 (drop (12 * k + 4) (mmap i)) = drop 4 (take 12 (drop (12 * k) (mmap i)))"
      by (simp add: drop_take add.commute)
    also have "\<dots> = PutUint64 (snd (es ! k))"
      unfolding ent by (simp add: entry_bytes_def length_PutUint32)
    finally show ?thesis .
  qed
  have "index_Read i (- 1) = Inr (es ! k)"
    using nz nlt lenm
    by (simp add: index_Read_def entWidth_def offWidth_def posWidth_def Let_def
        pos_def [symmetric] subslice_def upos upos4 upos12 b4 b8
        Uint32_PutUint32 Uint64_PutUint64)
  then show ?thesis by (simp add: k_def e_def)
qed

lemma os_OpenFile_holds:
  assumes "map_of fs name = None \<and> d = [] \<or> map_of fs name = Some d"
  shows "os_OpenFile fs name = (fst (os_OpenFile fs name), \<lparr>Name = name, closed = False\<rparr>) \<and>
         map_of (fst (os_OpenFile fs name)) name = Some d"
  using assms by (auto simp: os_OpenFile_def update_conv')

lemma newIndex_on_file:
  assumes "map_of fs name = Some d" and "0 < sint (MaxIndexBytes (Segment c))"
  shows "newIndex fs \<lparr>Name = name, closed = False\<rparr> c =
     (AList.update name (resize (unat (MaxIndexBytes (Segment c))) d) fs,
      Inr \<lparr>ifile = \<lparr>Name = name, closed = False\<rparr>,
           mmap = resize (unat (MaxIndexBytes (Segment c))) d, isize = of_nat (length d)\<rparr>)"
proof -
  have n: "nat (sint (MaxIndexBytes (Segment c))) = unat (MaxIndexBytes (Segment c))"
    using sint_nonneg(1) [of "MaxIndexBytes (Segment c)"] assms(2) by simp
  have "0 < unat (MaxIndexBytes (Segment c))"
    using n assms(2) by linarith
  then have "resize (unat (MaxIndexBytes (Segment c))) d \<noteq> []"
    by (cases d) (auto simp: resize_def)
  then show ?thesis
    using assms n
    by (simp add: newIndex_def os_Stat_def os_Truncate_def gommap_Map_def update_conv')
qed

lemma newIndex_on_file_fails:
  assumes "map_of fs name = Some d" and "\<not> 0 < sint (MaxIndexBytes (Segment c))"
  shows "\<exists>fs' e. newIndex fs \<lparr>Name = name, closed = False\<rparr> c = (fs', Inl e)"
  using assms
  by (cases "sint (MaxIndexBytes (Segment c)) < 0")
     (simp_all add: newIndex_def os_Stat_def os_Truncate_def gommap_Map_def update_conv' resize_def)

lemma index_reopen_eq:
  assumes holds: "map_of fs name = None \<and> es0 = [] \<or>
                 map_of fs name = Some (concat (map entry_bytes es0))"
      and M: "0 < sint (MaxIndexBytes (Segment c))"
      and fit: "12 * length (es0 @ es) \<le> unat (MaxIndexBytes (Segment c))"
  shows "index_reopen fs name c es =
     Inr (12 * length (es0 @ es),
          \<lparr>ifile = \<lparr>Name = name, closed = False\<rparr>,
           mmap = concat (map entry_bytes (es0 @ es))
                    @ replicate (unat (MaxIndexBytes (Segment c)) - 12 * length (es0 @ es)) 0,
           isize = of_nat (12 * length (es0 @ es))\<rparr>)"
proof -
  define n where "n = unat (MaxIndexBytes (Segment c))"
  define f where "f = \<lparr>Name = name, closed = False\<rparr>"
  define d0 where "d0 = concat (map entry_bytes es0)"
  define k0 where "k0 = 12 * length es0"
  define body where "body = concat (map entry_bytes (es0 @ es))"
  define e12 where "e12 = 12 * length (es0 @ es)"
  have nat_M: "nat (sint (MaxIndexBytes (Segment c))) = n" and n63: "n < 2 ^ 63"
    using sint_nonneg [of "MaxIndexBytes (Segment c)"] M by (simp_all add: n_def)
  have n0: "0 < n" using M nat_M by linarith
  have fit': "e12 \<le> n" using fit by (simp add: n_def e12_def)
  have lb: "length body = e12" by (simp only: body_def e12_def length_concat_entries)
  have ld0: "length d0 = k0" by (simp only: d0_def k0_def length_concat_entries)
  have k0e: "k0 \<le> e12" by (simp add: k0_def e12_def)
  have body_eq: "body = d0 @ concat (map entry_bytes es)" by (simp add: body_def d0_def)
  define fs0 where "fs0 = fst (os_OpenFile fs name)"
  have file': "map_of fs name = None \<and> d0 = [] \<or> map_of fs name = Some d0"
    using holds by (auto simp: d0_def)
  have o1: "os_OpenFile fs name = (fs0, f)" and m0: "map_of fs0 name = Some d0"
    using os_OpenFile_holds [OF file'] by (simp_all add: fs0_def f_def)
  define fs1 where "fs1 = AList.update name (resize n d0) fs0"
  define i0 where "i0 = \<lparr>ifile = f, mmap = resize n d0, isize = of_nat k0\<rparr>"
  define i1 where "i1 = \<lparr>ifile = f, mmap = body @ replicate (n - e12) 0, isize = of_nat e12\<rparr>"
  define fs2 where "fs2 = AList.update name body (AList.update name (mmap i1) fs1)"
  have ni: "newIndex fs0 f c = (fs1, Inr i0)"
    using newIndex_on_file [OF m0 M] by (simp add: f_def fs1_def i0_def n_def ld0)
  have rz: "resize n d0 = d0 @ replicate (n - k0) 0"
    using k0e fit' by (simp add: resize_def ld0)
  have wr: "index_Writes i0 es = (i1, None)"
  proof -
    have u0: "unat (isize i0) = k0"
      unfolding i0_def using unat_of_nat64 [of k0] k0e fit' n63 by simp
    have p1: "length (mmap i0) < 2 ^ 63" using n63 k0e fit' by (simp add: i0_def rz ld0)
    have p2: "unat (isize i0) \<le> length (mmap i0)" using k0e fit' by (simp add: u0) (simp add: i0_def rz ld0)
    have e: "k0 + 12 * length es = e12" by (simp add: k0_def e12_def)
    have "unat (isize i0) + 12 * length es \<le> length (mmap i0)"
      using fit' k0e by (simp add: u0 e) (simp add: i0_def rz ld0)
    with index_Writes_eq [OF p1 p2, of es]
    have "index_Writes i0 es =
        (i0\<lparr>mmap := take (unat (isize i0)) (mmap i0) @ concat (map entry_bytes es)
                        @ drop (unat (isize i0) + 12 * length es) (mmap i0),
            isize := isize i0 + of_nat (12 * length es)\<rparr>, None)"
      by blast
    also have "take (unat (isize i0)) (mmap i0) = d0"
      by (simp add: u0) (simp add: i0_def rz ld0)
    also have "drop (unat (isize i0) + 12 * length es) (mmap i0) = replicate (n - e12) 0"
      using k0e by (simp add: u0 e) (simp add: i0_def rz ld0)
    also have "isize i0 + of_nat (12 * length es) = (of_nat e12 :: uint64)"
      by (simp add: i0_def e [symmetric] del: of_nat_mult)
    finally show ?thesis
      by (simp add: i0_def i1_def body_eq)
  qed
  have s1: "sint (isize i1) = int e12"
    unfolding i1_def using sint_of_nat_small [of e12] fit' n63 by simp
  have cl: "index_Close fs1 i1 = (fs2, i1\<lparr>ifile := f\<lparr>closed := True\<rparr>\<rparr>, None)"
  proof -
    have lm: "length (mmap i1) = n" using fit' by (simp add: i1_def lb)
    have lr: "length (resize n d0) = n" using k0e fit' by (simp add: rz ld0)
    have sy: "mmap_Sync fs1 i1 = AList.update name (mmap i1) fs1"
      using lm by (simp add: mmap_Sync_def fs1_def update_conv' lr) (simp add: i1_def f_def)
    have tr: "take e12 (mmap i1) = body" by (simp add: i1_def lb)
    show ?thesis
      using s1 fit'
      by (simp add: index_Close_def sy File_Sync_def File_Truncate_def os_Truncate_def
          File_Close_def update_conv' resize_def tr lm fs2_def)
        (simp add: i1_def f_def)
  qed
  have st: "os_Stat fs2 name = Inr e12"
    by (simp add: os_Stat_def fs2_def update_conv' lb)
  have o2: "os_OpenFile fs2 name = (fs2, f)"
    by (simp add: os_OpenFile_def fs2_def update_conv' f_def)
  have m2: "map_of fs2 name = Some body" by (simp add: fs2_def update_conv')
  have ni2: "newIndex fs2 f c =
      (AList.update name (resize n body) fs2,
       Inr \<lparr>ifile = f, mmap = resize n body, isize = of_nat (length body)\<rparr>)"
    using newIndex_on_file [OF m2 M] by (simp add: f_def n_def)
  have rz2: "resize n body = body @ replicate (n - e12) 0"
    using fit' by (simp add: resize_def lb)
  have "index_reopen fs name c es =
      Inr (e12, \<lparr>ifile = f, mmap = body @ replicate (n - e12) 0, isize = of_nat e12\<rparr>)"
    by (simp add: index_reopen_def o1 ni wr cl st o2 ni2 rz2 lb)
  then show ?thesis
    unfolding e12_def body_def f_def n_def .
qed

lemma index_reopen_Inr:
  assumes holds: "map_of fs name = None \<and> es0 = [] \<or>
                 map_of fs name = Some (concat (map entry_bytes es0))"
      and cap: "12 * length es0 \<le> unat (MaxIndexBytes (Segment c))"
      and ok: "index_reopen fs name c es = Inr r"
  shows "0 < sint (MaxIndexBytes (Segment c)) \<and>
         12 * length (es0 @ es) \<le> unat (MaxIndexBytes (Segment c))"
proof (rule ccontr)
  assume neg: "\<not> ?thesis"
  define f where "f = \<lparr>Name = name, closed = False\<rparr>"
  define d0 where "d0 = concat (map entry_bytes es0)"
  define n where "n = unat (MaxIndexBytes (Segment c))"
  define fs0 where "fs0 = fst (os_OpenFile fs name)"
  have ld0: "length d0 = 12 * length es0" by (simp only: d0_def length_concat_entries)
  have holds': "map_of fs name = None \<and> d0 = [] \<or> map_of fs name = Some d0"
    using holds by (auto simp: d0_def)
  have o1: "os_OpenFile fs name = (fs0, f)" and m0: "map_of fs0 name = Some d0"
    using os_OpenFile_holds [OF holds'] by (simp_all add: fs0_def f_def)
  show False
  proof (cases "0 < sint (MaxIndexBytes (Segment c))")
    case False
    from newIndex_on_file_fails [OF m0 False] obtain fs' e where
      "newIndex fs0 f c = (fs', Inl e)" by (auto simp: f_def)
    then have "index_reopen fs name c es = Inl e" by (simp add: index_reopen_def o1)
    with ok show False by simp
  next
    case True
    with neg have nfit: "\<not> 12 * length (es0 @ es) \<le> n" by (simp add: n_def)
    have n63: "n < 2 ^ 63"
      using sint_nonneg(2) [of "MaxIndexBytes (Segment c)"] True by (simp add: n_def)
    have cap': "12 * length es0 \<le> n" using cap by (simp add: n_def)
    define i0 where "i0 = \<lparr>ifile = f, mmap = resize n d0, isize = of_nat (length d0) :: uint64\<rparr>"
    have ni: "newIndex fs0 f c = (AList.update name (resize n d0) fs0, Inr i0)"
      using newIndex_on_file [OF m0 True] by (simp add: f_def i0_def n_def)
    have lm: "length (mmap i0) = n" using cap' by (simp add: i0_def resize_def ld0)
    have u0: "unat (isize i0) = 12 * length es0"
      unfolding i0_def ld0 using unat_of_nat64 [of "12 * length es0"] cap' n63
      by (simp del: of_nat_mult)
    have p1: "length (mmap i0) < 2 ^ 63" using n63 lm by simp
    have p2: "unat (isize i0) \<le> length (mmap i0)" using cap' by (simp add: u0 lm)
    have "\<not> unat (isize i0) + 12 * length es \<le> length (mmap i0)"
      using nfit by (simp add: u0 lm)
    with index_Writes_eq [OF p1 p2, of es] have "snd (index_Writes i0 es) = Some EOF" by blast
    then obtain i1 where "index_Writes i0 es = (i1, Some EOF)"
      by (cases "index_Writes i0 es") auto
    then have "index_reopen fs name c es = Inl EOF"
      by (simp add: index_reopen_def o1 ni)
    with ok show False by simp
  qed
qed

text \<open>
  Every file whose length is a multiple of 12 is a sequence of entries.
\<close>

lemma PutUint32_Uint32: "length b = 4 \<Longrightarrow> PutUint32 (Uint32 b) = b"
proof -
  assume "length b = 4"
  then obtain b0 b1 b2 b3 where b: "b = [b0, b1, b2, b3]"
    by (cases b; cases "tl b"; cases "tl (tl b)"; cases "tl (tl (tl b))") auto
  show ?thesis
    unfolding b PutUint32_def Uint32_def
    by (simp, intro conjI; rule bit_word_eqI) (auto simp: bit_simps dest: bit_imp_le_length)
qed

lemma PutUint64_Uint64: "length b = 8 \<Longrightarrow> PutUint64 (Uint64 b) = b"
proof -
  assume l: "length b = 8"
  then have "b = [b ! 0, b ! 1, b ! 2, b ! 3, b ! 4, b ! 5, b ! 6, b ! 7]"
    by (auto simp: list_eq_iff_nth_eq nth_Cons' less_Suc_eq numeral_eq_Suc)
  then obtain b0 b1 b2 b3 b4 b5 b6 b7 where b: "b = [b0, b1, b2, b3, b4, b5, b6, b7]" by blast
  show ?thesis
    unfolding b PutUint64_def Uint64_def
    by (simp, intro conjI; rule bit_word_eqI) (auto simp: bit_simps dest: bit_imp_le_length)
qed

lemma entries_of_bytes:
  "length d = 12 * k \<Longrightarrow> \<exists>es. d = concat (map entry_bytes es) \<and> length es = k"
proof (induction k arbitrary: d)
  case 0
  then show ?case by simp
next
  case (Suc k)
  define e where "e = (Uint32 (take 4 d), Uint64 (take 8 (drop 4 d)))"
  have "length (drop 12 d) = 12 * k" using Suc.prems by simp
  from Suc.IH [OF this] obtain es where es: "drop 12 d = concat (map entry_bytes es)"
    "length es = k" by blast
  have "entry_bytes e = take 12 d"
  proof -
    have "entry_bytes e = take 4 d @ take 8 (drop 4 d)"
      using Suc.prems by (simp add: e_def entry_bytes_def PutUint32_Uint32 PutUint64_Uint64)
    also have "\<dots> = take 12 d"
      using take_add [of 4 8 d] by simp
    finally show ?thesis .
  qed
  then have "d = concat (map entry_bytes (e # es))"
    using es(1) append_take_drop_id [of 12 d] by simp
  then show ?case using es(2) by (intro exI [of _ "e # es"]) simp
qed

text \<open>
  Claim C7, amended. Take an index file that is new, or that holds \<open>e0\<close> entries of
  earlier cycles which fit the cap (\<open>12 * e0 \<le> max_index_bytes\<close>), and an index built
  on it, written to and closed without error, so that the file holds \<open>e\<close> entries in
  all. Then the file on disk is exactly \<open>12 * e\<close> bytes long; building the index on it
  again (same cap) gives an index of logical size \<open>12 * e\<close> whose first \<open>12 * e\<close> mapped
  bytes are the \<open>e\<close> entries, in order, followed by the padding up to the cap.
  \<open>Read(-1)\<close> on it returns the last entry written when \<open>1 \<le> e \<le> 2 ^ 32\<close>; it fails
  with \<open>io.EOF\<close> when \<open>e = 0\<close>; and beyond \<open>2 ^ 32\<close> entries it returns entry
  \<open>(e - 1) mod 2 ^ 32\<close>, the entry number being a \<open>uint32\<close>.
\<close>

theorem index_reopen_spec:
  assumes holds: "map_of fs name = None \<and> es0 = [] \<or>
                 map_of fs name = Some (concat (map entry_bytes es0))"
      and cap: "12 * length es0 \<le> unat (MaxIndexBytes (Segment c))"
      and ok: "index_reopen fs name c es = Inr (n, i)"
  shows "n = 12 * length (es0 @ es) \<and>
         unat (isize i) = 12 * length (es0 @ es) \<and>
         take (12 * length (es0 @ es)) (mmap i) = concat (map entry_bytes (es0 @ es)) \<and>
         length (mmap i) = unat (MaxIndexBytes (Segment c)) \<and>
         (if es0 @ es = [] then index_Read i (- 1) = Inl EOF
          else if length (es0 @ es) \<le> 2 ^ 32 then index_Read i (- 1) = Inr (last (es0 @ es))
          else index_Read i (- 1)
                 = Inr ((es0 @ es) ! ((length (es0 @ es) - 1) mod 2 ^ 32)))"
proof -
  define all where "all = es0 @ es"
  from index_reopen_Inr [OF holds cap ok]
  have M: "0 < sint (MaxIndexBytes (Segment c))"
    and fit: "12 * length (es0 @ es) \<le> unat (MaxIndexBytes (Segment c))" by simp_all
  have n63: "unat (MaxIndexBytes (Segment c)) < 2 ^ 63"
    using sint_nonneg(2) [of "MaxIndexBytes (Segment c)"] M by simp
  from index_reopen_eq [OF holds M fit] ok
  have n: "n = 12 * length all"
    and i: "i = \<lparr>ifile = \<lparr>Name = name, closed = False\<rparr>,
           mmap = concat (map entry_bytes all)
                    @ replicate (unat (MaxIndexBytes (Segment c)) - 12 * length all) 0,
           isize = of_nat (12 * length all)\<rparr>"
    unfolding all_def by simp_all
  have fit': "12 * length all \<le> unat (MaxIndexBytes (Segment c))"
    using fit by (simp add: all_def)
  have b: "12 * length all < 2 ^ 63" using fit' n63 by simp
  have m: "mmap i = concat (map entry_bytes all)
                    @ replicate (unat (MaxIndexBytes (Segment c)) - 12 * length all) 0"
    by (simp add: i)
  have w: "isize i = of_nat (12 * length all)" unfolding i by (simp del: of_nat_mult)
  have u: "unat (isize i) = 12 * length all"
    unfolding w by (rule unat_of_nat64) (use b in simp)
  have t: "take (12 * length all) (mmap i) = concat (map entry_bytes all)"
    by (simp add: m length_concat_entries)
  have l: "length (mmap i) = unat (MaxIndexBytes (Segment c))"
    using fit' by (simp add: m length_concat_entries)
  have r: "(if all = [] then index_Read i (- 1) = Inl EOF
          else if length all \<le> 2 ^ 32 then index_Read i (- 1) = Inr (last all)
          else index_Read i (- 1) = Inr (all ! ((length all - 1) mod 2 ^ 32)))"
  proof (cases "all = []")
    case True
    then show ?thesis by (simp add: index_Read_def i)
  next
    case False
    from index_Read_last [OF m w False b] False show ?thesis
      by (auto simp: last_conv_nth)
  qed
  show ?thesis using n u t l r unfolding all_def by simp
qed

theorem index_reopen_spec_witness:
  "map_of [(''index_test'', concat (map entry_bytes [(0, 0)]))] ''index_test''
     = Some (concat (map entry_bytes [(0, 0)])) \<and>
   12 * length [(0 :: uint32, 0 :: uint64)] \<le> unat (MaxIndexBytes (Segment test_config)) \<and>
   index_reopen [(''index_test'', concat (map entry_bytes [(0, 0)]))] ''index_test''
     test_config [(1, 10)] = Inr (24, test_idx2) \<and>
   index_reopen [] ''index_test'' test_config [(0, 0), (1, 10)] = Inr (24, test_idx2) \<and>
   unat (isize test_idx2) = 24 \<and>
   index_Read test_idx2 (- 1) = Inr (1, 10)"
proof -
  have holds: "map_of [(''index_test'', concat (map entry_bytes [(0, 0)]))] ''index_test'' = None
               \<and> [(0 :: uint32, 0 :: uint64)] = [] \<or>
     map_of [(''index_test'', concat (map entry_bytes [(0, 0)]))] ''index_test''
       = Some (concat (map entry_bytes [(0, 0)]))"
    by simp
  have cap: "12 * length [(0 :: uint32, 0 :: uint64)] \<le> unat (MaxIndexBytes (Segment test_config))"
    by (simp add: test_config_def)
  have run: "index_reopen [(''index_test'', concat (map entry_bytes [(0, 0)]))] ''index_test''
     test_config [(1, 10)] = Inr (24, test_idx2)"
    by (simp add: index_reopen_def run_defs entry_bytes_def test_config_def test_idx2_def
        test_file_def)
  have run0: "index_reopen [] ''index_test'' test_config [(0, 0), (1, 10)] = Inr (24, test_idx2)"
    by (simp add: index_reopen_def run_defs test_config_def test_idx2_def test_file_def)
  from index_reopen_spec [OF holds cap run] show ?thesis using run run0 cap by simp
qed

text \<open>
  The claim as stated fails in three places. With \<open>2 ^ 32 + 1\<close> entries the run
  succeeds, the last entry written is \<open>(0, 1)\<close>, and \<open>Read(-1)\<close> on the reopened index
  returns entry 0, which is \<open>(0, 0)\<close>. On a file that holds two entries, under a cap
  of 12 bytes, open, close and open again succeed and leave a file of 24 bytes, but the
  mapping is 12 bytes long and \<open>Read(-1)\<close> panics on its slice. On a file of five
  bytes, after one write and a clean close the file is 17 bytes long, and \<open>Read(-1)\<close>
  on the reopened index decodes the first twelve of them, not the entry \<open>(0, 7)\<close>
  that was written.
\<close>

lemma big_entries_facts:
  "length big_entries = 4294967297" "big_entries \<noteq> []" "big_entries ! 0 = (0, 0)"
  "last big_entries = (0, 1)"
  by (simp_all add: big_entries_def nth_append)

theorem index_reopen_counterexample:
  "index_reopen [] ''index_test'' big_config big_entries = Inr (51539607564, big_index) \<and>
   length big_entries = 4294967297 \<and>
   last big_entries = (0, 1) \<and>
   index_Read big_index (- 1) = Inr (0, 0) \<and>
   index_reopen [(''index_test'', two_entries)] ''index_test'' config12 []
     = Inr (24, cut_index) \<and>
   index_Read cut_index (- 1) = Inl Panic \<and>
   index_reopen [(''index_test'', [1, 2, 3, 4, 5])] ''index_test'' test_config [(0, 7)]
     = Inr (17, odd_index) \<and>
   index_Read odd_index (- 1) = Inr (16909060, 360287970189639680)"
proof -
  have "index_reopen [] ''index_test'' big_config big_entries = Inr (51539607564, big_index)"
    using index_reopen_eq [of "[]" "''index_test''" "[]" big_config big_entries]
    by (simp add: big_config_def big_index_def big_entries_facts del: of_nat_mult)
  moreover have "index_Read big_index (- 1) = Inr (0, 0)"
    using index_Read_last [of big_index big_entries "[]"]
    by (simp add: big_index_def big_entries_facts)
  moreover have "index_reopen [(''index_test'', two_entries)] ''index_test'' config12 []
     = Inr (24, cut_index)"
    by (simp add: index_reopen_def run_defs entry_bytes_def two_entries_def cut_index_def
        config12_def)
  moreover have "index_Read cut_index (- 1) = Inl Panic"
    by (simp add: index_Read_def cut_index_def entry_bytes_def run_defs)
  moreover have "index_reopen [(''index_test'', [1, 2, 3, 4, 5])] ''index_test'' test_config
      [(0, 7)] = Inr (17, odd_index)"
    by (simp add: index_reopen_def run_defs entry_bytes_def odd_index_def test_config_def)
  moreover have "index_Read odd_index (- 1) = Inr (16909060, 360287970189639680)"
    by (simp add: index_Read_def odd_index_def entry_bytes_def run_defs)
  ultimately show ?thesis by (simp add: big_entries_facts)
qed

section \<open>The list of segments\<close>

text \<open>
  \<open>HighestOffset\<close> on a log with a segment, and the operations that keep the list of
  segments non-empty: \<open>setup\<close> ends with at least one segment, and \<open>Append\<close>, \<open>Read\<close>,
  \<open>Close\<close>, \<open>Remove\<close> and \<open>Reset\<close> never shorten the list.
\<close>

lemma Log_HighestOffset_eq:
  "segments l \<noteq> [] \<Longrightarrow>
   Log_HighestOffset l =
     Inr (if nextOffset (heap l ! last (segments l)) = 0 then 0
          else nextOffset (heap l ! last (segments l)) - 1)"
  by (simp add: Log_HighestOffset_def Let_def)

lemma Log_newSegment_segments:
  "Log_newSegment l off = (l', r) \<Longrightarrow>
   (r = None \<longrightarrow> segments l' \<noteq> []) \<and> (segments l \<noteq> [] \<longrightarrow> segments l' \<noteq> [])"
  by (auto simp: Log_newSegment_def split: if_splits prod.splits sum.splits)

lemma setup_segments_segments:
  "setup_segments l offs = (l', r) \<Longrightarrow> segments l \<noteq> [] \<Longrightarrow> segments l' \<noteq> []"
proof (induction l offs rule: setup_segments.induct)
  case (1 l)
  then show ?case by simp
next
  case (2 l off baseOffsets)
  obtain l1 r1 where n: "Log_newSegment l off = (l1, r1)" by (cases "Log_newSegment l off")
  have ne: "segments l1 \<noteq> []" using Log_newSegment_segments [OF n] "2.prems"(2) by simp
  show ?case
  proof (cases r1)
    case None
    with "2.prems"(1) n have "setup_segments l1 (drop 1 baseOffsets) = (l', r)" by simp
    from "2.IH" [OF n [symmetric] _ this ne] None show ?thesis by simp
  next
    case (Some e)
    with "2.prems"(1) n ne show ?thesis by auto
  qed
qed

lemma Log_setup_nonempty:
  assumes "Log_setup l = (l', None)"
  shows "segments l' \<noteq> []"
proof -
  from assms obtain baseOffsets l1 where
    s: "setup_segments l (sort baseOffsets) = (l1, None)" and
    f: "(if segments l1 = [] then Log_newSegment l1 (InitialOffset (Segment (Config l1)))
         else (l1, None)) = (l', None)"
    by (auto simp: Log_setup_def split: if_splits sum.splits prod.splits option.splits)
  show ?thesis
  proof (cases "segments l1 = []")
    case True
    with f have "Log_newSegment l1 (InitialOffset (Segment (Config l1))) = (l', None)" by simp
    from Log_newSegment_segments [OF this] show ?thesis by simp
  next
    case False
    with f show ?thesis by simp
  qed
qed

lemma Log_Append_segments:
  "segments l \<noteq> [] \<Longrightarrow> segments (fst (Log_Append pb l record)) \<noteq> []"
  by (auto simp: Log_Append_def Let_def split: option.splits prod.splits if_splits
      dest: Log_newSegment_segments)

lemma Log_Read_segments: "segments (fst (Log_Read pb l off)) = segments l"
  by (auto simp: Log_Read_def split: option.splits prod.splits if_splits)

lemma Close_segments_segments: "segments (fst (Close_segments l as)) = segments l"
  by (induction l as rule: Close_segments.induct) (auto split: prod.splits option.splits)

lemma Log_Close_segments: "segments (fst (Log_Close l)) = segments l"
  by (simp add: Log_Close_def Close_segments_segments)

lemma Log_Remove_segments: "segments (fst (Log_Remove l)) = segments l"
  using Log_Close_segments [of l]
  by (auto simp: Log_Remove_def split: prod.splits option.splits)

lemma Log_setup_segments:
  assumes "segments l \<noteq> []"
  shows "segments (fst (Log_setup l)) \<noteq> []"
proof (cases "Log_setup l")
  case (Pair l' r)
  then show ?thesis
    using assms
    by (auto simp: Log_setup_def split: if_splits sum.splits prod.splits option.splits
        dest: setup_segments_segments Log_newSegment_segments)
qed

lemma Log_Reset_segments:
  assumes "segments l \<noteq> []"
  shows "segments (fst (Log_Reset l)) \<noteq> []"
proof (cases "Log_Remove l")
  case (Pair l1 r)
  then have ne: "segments l1 \<noteq> []" using Log_Remove_segments [of l] assms by simp
  show ?thesis
    using Pair ne Log_setup_segments [OF ne]
    by (cases r) (simp_all add: Log_Reset_def)
qed

section \<open>Runs of the log\<close>

text \<open>
  Claim C1. After a successful \<open>Log.Append(payload)\<close> that returned \<open>off\<close>, \<open>Log.Read(off)\<close>
  is to return that payload. The run: a new log on an empty directory with the default
  caps (1024 and 1024), one append, which returns \<open>(0, nil)\<close>, and \<open>Read(0)\<close>, which
  returns \<open>io.EOF\<close>: \<open>segment.Read\<close> asks \<open>index.Read\<close> for entry 0, and \<open>index.Read\<close> looks
  at entry number \<open>uint32(i.size) = 12\<close> instead.
\<close>

theorem Log_Read_after_Append_run:
  "(case NewLog True [] config0 of (l0, e0) \<Rightarrow>
      case Log_Append wire l0 hello of (l1, r1, res1) \<Rightarrow>
        (e0, Segment (Config l0), res1, snd (Log_Read wire l1 0)))
   = (None, \<lparr>MaxStoreBytes = 1024, MaxIndexBytes = 1024, InitialOffset = 0\<rparr>,
      (0, None), Inl EOF)"
  by (simp add: run_defs)

text \<open>
  Claim C3. An error of the store or of the index during an append is to reach the caller
  of \<open>Log.Append\<close>. The first run: a new log with the index capped at 16 bytes and one
  append; in the second append \<open>index.Write\<close> returns \<open>io.EOF\<close>, \<open>segment.Append\<close> returns
  \<open>(0, nil)\<close>, and so does \<open>Log.Append\<close>. The second run: the buffered writer of the
  active segment's store holds a pending error; \<open>segment.Append\<close> returns it, and
  \<open>Log.Append\<close> returns \<open>(0, nil)\<close>.
\<close>

theorem Log_Append_error_run:
  "(case NewLog True [] config16 of (l0, e0) \<Rightarrow>
      case Log_Append wire l0 hello of (l1, r1, res1) \<Rightarrow>
      case segment_Append wire (heap l1 ! 0) hello of (s2, r2, res2) \<Rightarrow>
        (e0, res1, activeSegment l1,
         snd (index_Write (index (heap l1 ! 0)) 1 (ssize (store (heap l1 ! 0)))),
         res2, snd (snd (Log_Append wire l1 hello))))
   = (None, (0, None), Some 0, Some EOF, (0, None), (0, None)) \<and>
   (case NewLog True [] config16 of (l0, e0) \<Rightarrow>
      case segment_Append wire
             ((heap l0 ! 0)\<lparr>store := (store (heap l0 ! 0))\<lparr>buf_err := Some ErrClosed\<rparr>\<rparr>)
             hello of (s2, r2, res2) \<Rightarrow>
        (e0, res2,
         snd (snd (Log_Append wire
           (l0\<lparr>heap := [(heap l0 ! 0)\<lparr>store := (store (heap l0 ! 0))\<lparr>buf_err := Some ErrClosed\<rparr>\<rparr>]\<rparr>)
           hello))))
   = (None, (0, Some ErrClosed), (0, None))"
  by (simp add: run_defs)

text \<open>
  Claim C4. Successive successful appends are to return offsets that grow by one. The
  run: a new log with the index capped at 16 bytes; the first append returns \<open>(0, nil)\<close>
  and the second returns \<open>(0, nil)\<close> again.
\<close>

theorem Log_Append_offsets_run:
  "(case NewLog True [] config16 of (l0, e0) \<Rightarrow>
      case Log_Append wire l0 hello of (l1, r1, res1) \<Rightarrow>
      case Log_Append wire l1 hello of (l2, r2, res2) \<Rightarrow>
        (e0, res1, res2))
   = (None, (0, None), (0, None))"
  by (simp add: run_defs)

text \<open>
  Claim C8. After \<open>k\<close> successful appends to a new log with \<open>initial_offset = B\<close>,
  \<open>HighestOffset()\<close> is to be \<open>B + k - 1\<close>. The run: \<open>B = 0\<close> and the index capped at 16
  bytes; two appends return a nil error, and \<open>HighestOffset()\<close> is 0.
\<close>

theorem Log_HighestOffset_run:
  "(case NewLog True [] config16 of (l0, e0) \<Rightarrow>
      case Log_Append wire l0 hello of (l1, r1, res1) \<Rightarrow>
      case Log_Append wire l1 hello of (l2, r2, res2) \<Rightarrow>
        (e0, InitialOffset (Segment (Config l0)), snd res1, snd res2, Log_HighestOffset l2))
   = (None, 0, None, None, Inr 0)"
  by (simp add: run_defs)

text \<open>
  Claim C9. After \<open>setup\<close> the log is to hold at least one segment, whatever public
  operation follows. The run: a new log, one append (offset 0), and
  \<open>Truncate(0)\<close>: the only segment has \<open>nextOffset = 1 \<le> 0 + 1\<close> and is removed, the
  list of segments is empty, and \<open>LowestOffset\<close> and \<open>HighestOffset\<close> panic on it.
\<close>

theorem Log_Truncate_empties_run:
  "(case NewLog True [] config0 of (l0, e0) \<Rightarrow>
      case Log_Append wire l0 hello of (l1, r1, res1) \<Rightarrow>
      case Log_Truncate l1 0 of (l2, e2) \<Rightarrow>
        (e0, segments l0, res1, segments l1, e2, segments l2,
         Log_LowestOffset l2, Log_HighestOffset l2))
   = (None, [0], (0, None), [0], None, [], Inl Panic, Inl Panic)"
  by (simp add: run_defs)

section \<open>The segment\<close>

text \<open>
  Claim C10. \<open>segment.Append(record)\<close> sets \<open>record.Offset\<close> to the offset it assigns, in
  the caller's record and before it serializes: the record the call leaves behind is the
  caller's with \<open>Offset\<close> replaced by \<open>nextOffset\<close>, on every path; and what the store
  receives is the length prefix and the marshalled form of that record, not of the
  record as supplied. (When marshalling fails, or the store's writer holds an error,
  the store receives nothing.)
\<close>

theorem segment_Append_sets_Offset:
  "fst (snd (segment_Append pb s record)) = record\<lparr>Offset := nextOffset s\<rparr> \<and>
   (case Marshal pb (record\<lparr>Offset := nextOffset s\<rparr>) of
      Inl e \<Rightarrow> store (fst (segment_Append pb s record)) = store s
    | Inr r \<Rightarrow>
        (case buf_err (store s) of
           Some e \<Rightarrow> store (fst (segment_Append pb s record)) = store s
         | None \<Rightarrow> buf (store (fst (segment_Append pb s record)))
                     = buf (store s) @ PutUint64 (of_nat (length r)) @ r))"
  by (simp add: segment_Append_def store_Append_def bufio_Write_def Let_def
      split: sum.splits option.splits prod.splits)

section \<open>Truncation\<close>

lemma shrinks_refl: "shrinks fs fs"
  by (simp add: shrinks_def)

lemma shrinks_trans: "shrinks a b \<Longrightarrow> shrinks b c \<Longrightarrow> shrinks a c"
  by (simp add: shrinks_def)

lemma shrinks_update: "map_of fs k = Some d \<Longrightarrow> shrinks fs (AList.update k v fs)"
  by (auto simp: shrinks_def update_conv')

lemma shrinks_delete: "shrinks fs (AList.delete k fs)"
  by (auto simp: shrinks_def delete_conv')

lemma bufio_Flush_shrinks: "bufio_Flush fs s = (fs', s', r) \<Longrightarrow> shrinks fs fs'"
  by (auto simp: bufio_Flush_def File_Write_def shrinks_refl shrinks_update
      split: option.splits if_splits prod.splits)

lemma bufio_Flush_file: "bufio_Flush fs s = (fs', s', r) \<Longrightarrow> sfile s' = sfile s"
  by (auto simp: bufio_Flush_def File_Write_def split: option.splits if_splits prod.splits)

lemma store_Close_shrinks: "store_Close fs s = (fs', s', r) \<Longrightarrow> shrinks fs fs'"
  by (auto simp: store_Close_def File_Close_def split: option.splits if_splits prod.splits
      dest: bufio_Flush_shrinks)

lemma store_Close_closed:
  "store_Close fs s = (fs', s', None) \<Longrightarrow> closed (sfile s') \<and> Name (sfile s') = Name (sfile s)"
  by (auto simp: store_Close_def File_Close_def split: option.splits if_splits prod.splits
      dest: bufio_Flush_file)

lemma mmap_Sync_shrinks: "shrinks fs (mmap_Sync fs i)"
  by (auto simp: mmap_Sync_def shrinks_refl shrinks_update split: option.splits)

lemma os_Truncate_shrinks: "os_Truncate fs n k = (fs', r) \<Longrightarrow> shrinks fs fs'"
  by (auto simp: os_Truncate_def shrinks_refl shrinks_update split: option.splits if_splits)

lemma index_Close_shrinks: "index_Close fs i = (fs', i', r) \<Longrightarrow> shrinks fs fs'"
  by (auto simp: index_Close_def File_Sync_def File_Truncate_def File_Close_def Let_def
      mmap_Sync_shrinks
      split: option.splits if_splits prod.splits
      dest!: os_Truncate_shrinks intro: shrinks_trans [OF mmap_Sync_shrinks])

lemma index_Close_closed:
  "index_Close fs i = (fs', i', None) \<Longrightarrow> closed (ifile i') \<and> Name (ifile i') = Name (ifile i)"
  by (auto simp: index_Close_def File_Sync_def File_Truncate_def File_Close_def Let_def
      split: option.splits if_splits prod.splits)

lemma segment_Close_shrinks: "segment_Close fs s = (fs', s', r) \<Longrightarrow> shrinks fs fs'"
  by (auto simp: segment_Close_def split: option.splits prod.splits
      dest: store_Close_shrinks index_Close_shrinks intro: shrinks_trans)

lemma segment_Close_closed:
  "segment_Close fs s = (fs', s', None) \<Longrightarrow>
     closed (sfile (store s')) \<and> closed (ifile (index s')) \<and>
     Name (sfile (store s')) = Name (sfile (store s)) \<and>
     Name (ifile (index s')) = Name (ifile (index s))"
  by (auto simp: segment_Close_def split: option.splits prod.splits
      dest: store_Close_closed index_Close_closed)

lemma segment_Close_offsets:
  "segment_Close fs s = (fs', s', r) \<Longrightarrow> nextOffset s' = nextOffset s \<and> baseOffset s' = baseOffset s"
  by (auto simp: segment_Close_def split: option.splits prod.splits)

lemma os_Remove_shrinks: "os_Remove fs n = (fs', r) \<Longrightarrow> shrinks fs fs'"
  by (auto simp: os_Remove_def shrinks_refl shrinks_delete split: option.splits)

lemma os_Remove_gone: "os_Remove fs n = (fs', None) \<Longrightarrow> map_of fs' n = None"
  by (auto simp: os_Remove_def delete_conv' split: option.splits)

lemma segment_Remove_shrinks: "segment_Remove fs s = (fs', s', r) \<Longrightarrow> shrinks fs fs'"
  by (auto simp: segment_Remove_def split: option.splits prod.splits
      dest!: segment_Close_shrinks os_Remove_shrinks intro: shrinks_trans)

lemma segment_Remove_offsets:
  "segment_Remove fs s = (fs', s', r) \<Longrightarrow> nextOffset s' = nextOffset s \<and> baseOffset s' = baseOffset s"
  by (auto simp: segment_Remove_def split: option.splits prod.splits
      dest: segment_Close_offsets)

lemma segment_Remove_removed:
  assumes "segment_Remove fs s = (fs', s', None)"
  shows "removed fs' s'"
proof -
  from assms obtain fs1 fs2 where
    c: "segment_Close fs s = (fs1, s', None)" and
    r1: "os_Remove fs1 (index_Name (index s')) = (fs2, None)" and
    r2: "os_Remove fs2 (store_Name (store s')) = (fs', None)"
    by (auto simp: segment_Remove_def split: option.splits prod.splits)
  have "map_of fs2 (index_Name (index s')) = None" using r1 by (rule os_Remove_gone)
  moreover have "shrinks fs2 fs'" using r2 by (rule os_Remove_shrinks)
  ultimately have "map_of fs' (index_Name (index s')) = None" by (simp add: shrinks_def)
  moreover have "map_of fs' (store_Name (store s')) = None" using r2 by (rule os_Remove_gone)
  ultimately show ?thesis using segment_Close_closed [OF c] by (simp add: removed_def)
qed

lemma removed_shrinks: "removed fs s \<Longrightarrow> shrinks fs fs' \<Longrightarrow> removed fs' s"
  by (simp add: removed_def shrinks_def)

lemma above_watermark_eq: "(lowest + 1 < next) = above_watermark lowest next"
proof (cases "lowest = - 1")
  case True
  then show ?thesis by (simp add: above_watermark_def word_less_nat_alt)
next
  case False
  have m: "unat (- 1 :: uint64) = 18446744073709551615"
    by (simp add: unsigned_minus_1_eq_mask mask_eq_exp_minus_1)
  have "unat lowest \<noteq> unat (- 1 :: uint64)" using False by (simp add: word_unat_eq_iff)
  moreover have "unat lowest < 2 ^ 64" using unsigned_less [of lowest] by simp
  ultimately have "unat lowest + 1 < 2 ^ 64" unfolding m by simp
  then have "unat (lowest + 1) = unat lowest + 1" by (simp add: unat_word_ariths)
  then show ?thesis using False by (simp add: above_watermark_def word_less_nat_alt)
qed

lemma bufio_Flush_frame:
  "bufio_Flush fs s = (fs', s', r) \<Longrightarrow> n \<noteq> Name (sfile s) \<Longrightarrow> map_of fs' n = map_of fs n"
  by (auto simp: bufio_Flush_def File_Write_def update_conv'
      split: option.splits if_splits prod.splits)

lemma store_Close_frame:
  "store_Close fs s = (fs', s', r) \<Longrightarrow> n \<noteq> Name (sfile s) \<Longrightarrow> map_of fs' n = map_of fs n"
  by (auto simp: store_Close_def File_Close_def split: option.splits if_splits prod.splits
      dest: bufio_Flush_frame)

lemma store_Close_Name:
  "store_Close fs s = (fs', s', r) \<Longrightarrow> Name (sfile s') = Name (sfile s)"
  by (auto simp: store_Close_def File_Close_def split: option.splits if_splits prod.splits
      dest: bufio_Flush_file)

lemma index_Close_frame:
  "index_Close fs i = (fs', i', r) \<Longrightarrow> n \<noteq> Name (ifile i) \<Longrightarrow> map_of fs' n = map_of fs n"
  by (auto simp: index_Close_def File_Sync_def File_Truncate_def File_Close_def Let_def
      mmap_Sync_def os_Truncate_def update_conv'
      split: option.splits if_splits prod.splits)

lemma index_Close_Name:
  "index_Close fs i = (fs', i', r) \<Longrightarrow> Name (ifile i') = Name (ifile i)"
  by (auto simp: index_Close_def File_Sync_def File_Truncate_def File_Close_def Let_def
      split: option.splits if_splits prod.splits)

lemma segment_Close_frame:
  assumes "segment_Close fs s = (fs', s', r)"
      and "n \<noteq> store_Name (store s)" and "n \<noteq> index_Name (index s)"
  shows "map_of fs' n = map_of fs n"
proof -
  obtain fs1 st r1 where c: "store_Close fs (store s) = (fs1, st, r1)"
    by (cases "store_Close fs (store s)") auto
  have f1: "map_of fs1 n = map_of fs n"
    using store_Close_frame [OF c] assms(2) by (simp add: store_Name_def)
  show ?thesis
  proof (cases r1)
    case (Some e)
    then show ?thesis using assms(1) c f1 by (simp add: segment_Close_def)
  next
    case None
    obtain fs2 ix r2 where d: "index_Close fs1 (index s) = (fs2, ix, r2)"
      by (cases "index_Close fs1 (index s)") auto
    have "map_of fs2 n = map_of fs1 n"
      using index_Close_frame [OF d] assms(3) by (simp add: index_Name_def)
    then show ?thesis using assms(1) c None d f1 by (simp add: segment_Close_def)
  qed
qed

lemma segment_Close_Names:
  "segment_Close fs s = (fs', s', r) \<Longrightarrow>
   store_Name (store s') = store_Name (store s) \<and> index_Name (index s') = index_Name (index s)"
  by (auto simp: segment_Close_def store_Name_def index_Name_def
      split: option.splits prod.splits
      dest: store_Close_Name index_Close_Name)

lemma os_Remove_frame:
  "os_Remove fs k = (fs', r) \<Longrightarrow> n \<noteq> k \<Longrightarrow> map_of fs' n = map_of fs n"
  by (auto simp: os_Remove_def delete_conv' split: option.splits)

lemma segment_Remove_Names:
  "segment_Remove fs s = (fs', s', r) \<Longrightarrow>
   store_Name (store s') = store_Name (store s) \<and> index_Name (index s') = index_Name (index s)"
  by (auto simp: segment_Remove_def split: option.splits prod.splits
      dest: segment_Close_Names)

lemma segment_Remove_frame:
  assumes "segment_Remove fs s = (fs', s', r)"
      and "n \<noteq> store_Name (store s)" and "n \<noteq> index_Name (index s)"
  shows "map_of fs' n = map_of fs n"
proof -
  obtain fs1 s1 r1 where c: "segment_Close fs s = (fs1, s1, r1)"
    by (cases "segment_Close fs s") auto
  have f1: "map_of fs1 n = map_of fs n" using segment_Close_frame [OF c assms(2,3)] .
  have nm: "store_Name (store s1) = store_Name (store s)"
    "index_Name (index s1) = index_Name (index s)"
    using segment_Close_Names [OF c] by simp_all
  show ?thesis
  proof (cases r1)
    case (Some e)
    then show ?thesis using assms(1) c f1 by (simp add: segment_Remove_def)
  next
    case None
    obtain fs2 r2 where a: "os_Remove fs1 (index_Name (index s1)) = (fs2, r2)"
      by (cases "os_Remove fs1 (index_Name (index s1))") auto
    have f2: "map_of fs2 n = map_of fs1 n" using os_Remove_frame [OF a] assms(3) nm by simp
    show ?thesis
    proof (cases r2)
      case (Some e)
      then show ?thesis using assms(1) c None a f1 f2 by (simp add: segment_Remove_def)
    next
      case None2: None
      obtain fs3 r3 where b: "os_Remove fs2 (store_Name (store s1)) = (fs3, r3)"
        by (cases "os_Remove fs2 (store_Name (store s1))") auto
      have f3: "map_of fs3 n = map_of fs2 n" using os_Remove_frame [OF b] assms(2) nm by simp
      show ?thesis using assms(1) c None a None2 b f1 f2 f3 by (simp add: segment_Remove_def)
    qed
  qed
qed

lemma nth_list_update_any:
  "(xs[a := v]) ! b = (if a = b \<and> a < length xs then v else xs ! b)"
  by (cases "a < length xs") (auto simp: nth_list_update list_update_beyond)

lemma Truncate_segments_spec:
  assumes "Truncate_segments l lowest as kept = (l', kept', None)"
      and "\<forall>a \<in> set as. a < length (heap l)"
  shows "kept' = kept @ filter (\<lambda>a. lowest + 1 < nextOffset (heap l ! a)) as \<and>
         length (heap l') = length (heap l) \<and>
         segments l' = segments l \<and>
         activeSegment l' = activeSegment l \<and>
         Config l' = Config l \<and>
         DirExists l' = DirExists l \<and>
         shrinks (Dir l) (Dir l') \<and>
         (\<forall>b. nextOffset (heap l' ! b) = nextOffset (heap l ! b)) \<and>
         (\<forall>b. store_Name (store (heap l' ! b)) = store_Name (store (heap l ! b)) \<and>
              index_Name (index (heap l' ! b)) = index_Name (index (heap l ! b))) \<and>
         (\<forall>b. removed (Dir l) (heap l ! b) \<longrightarrow> removed (Dir l') (heap l' ! b)) \<and>
         (\<forall>a \<in> set as. \<not> lowest + 1 < nextOffset (heap l ! a) \<longrightarrow> removed (Dir l') (heap l' ! a)) \<and>
         (\<forall>b. (b \<notin> set as \<or> lowest + 1 < nextOffset (heap l ! b)) \<longrightarrow> heap l' ! b = heap l ! b) \<and>
         (\<forall>n. (\<forall>a \<in> set as. \<not> lowest + 1 < nextOffset (heap l ! a) \<longrightarrow>
                   n \<noteq> store_Name (store (heap l ! a)) \<and> n \<noteq> index_Name (index (heap l ! a)))
              \<longrightarrow> map_of (Dir l') n = map_of (Dir l) n)"
  using assms
proof (induction as arbitrary: l kept)
  case Nil
  then show ?case by (simp add: shrinks_refl)
next
  case (Cons a as)
  show ?case
  proof (cases "nextOffset (heap l ! a) \<le> lowest + 1")
    case False
    with Cons.prems have "Truncate_segments l lowest as (kept @ [a]) = (l', kept', None)"
      by simp
    from Cons.IH [OF this] Cons.prems(2) False show ?thesis
      by (auto simp: not_le)
  next
    case True
    with Cons.prems obtain fs1 s1 where
      rm: "segment_Remove (Dir l) (heap l ! a) = (fs1, s1, None)" and
      rest: "Truncate_segments (l\<lparr>Dir := fs1, heap := (heap l)[a := s1]\<rparr>) lowest as kept
               = (l', kept', None)"
      by (auto split: prod.splits option.splits)
    let ?l1 = "l\<lparr>Dir := fs1, heap := (heap l)[a := s1]\<rparr>"
    have a: "a < length (heap l)" using Cons.prems(2) by simp
    have n1: "\<And>b. nextOffset ((heap l)[a := s1] ! b) = nextOffset (heap l ! b)"
      using segment_Remove_offsets [OF rm] by (simp add: nth_list_update_any)
    have nm1: "\<And>b. store_Name (store ((heap l)[a := s1] ! b)) = store_Name (store (heap l ! b))"
      "\<And>b. index_Name (index ((heap l)[a := s1] ! b)) = index_Name (index (heap l ! b))"
      using segment_Remove_Names [OF rm] by (simp_all add: nth_list_update_any)
    have sh: "shrinks (Dir l) fs1" using rm by (rule segment_Remove_shrinks)
    have rem_a: "removed fs1 s1" using rm by (rule segment_Remove_removed)
    have rem1: "\<And>b. removed (Dir l) (heap l ! b) \<Longrightarrow> removed (Dir ?l1) (heap ?l1 ! b)"
      using rem_a sh by (auto simp: nth_list_update_any intro: removed_shrinks)
    have fr1: "\<And>n. n \<noteq> store_Name (store (heap l ! a)) \<Longrightarrow>
                   n \<noteq> index_Name (index (heap l ! a)) \<Longrightarrow> map_of fs1 n = map_of (Dir l) n"
      using segment_Remove_frame [OF rm] by simp
    have "\<forall>a \<in> set as. a < length (heap ?l1)" using Cons.prems(2) by simp
    from Cons.IH [OF rest this]
    have ih: "kept' = kept @ filter (\<lambda>a. lowest + 1 < nextOffset (heap ?l1 ! a)) as"
      "length (heap l') = length (heap ?l1)" "segments l' = segments ?l1"
      "activeSegment l' = activeSegment ?l1" "Config l' = Config ?l1"
      "DirExists l' = DirExists ?l1"
      "shrinks (Dir ?l1) (Dir l')"
      "\<And>b. nextOffset (heap l' ! b) = nextOffset (heap ?l1 ! b)"
      "\<And>b. store_Name (store (heap l' ! b)) = store_Name (store (heap ?l1 ! b))"
      "\<And>b. index_Name (index (heap l' ! b)) = index_Name (index (heap ?l1 ! b))"
      "\<And>b. removed (Dir ?l1) (heap ?l1 ! b) \<Longrightarrow> removed (Dir l') (heap l' ! b)"
      "\<And>b. b \<in> set as \<Longrightarrow> \<not> lowest + 1 < nextOffset (heap ?l1 ! b) \<Longrightarrow> removed (Dir l') (heap l' ! b)"
      "\<And>b. (b \<notin> set as \<or> lowest + 1 < nextOffset (heap ?l1 ! b)) \<Longrightarrow> heap l' ! b = heap ?l1 ! b"
      "\<And>n. (\<forall>a \<in> set as. \<not> lowest + 1 < nextOffset (heap ?l1 ! a) \<longrightarrow>
                   n \<noteq> store_Name (store (heap ?l1 ! a)) \<and> n \<noteq> index_Name (index (heap ?l1 ! a)))
              \<Longrightarrow> map_of (Dir l') n = map_of (Dir ?l1) n"
      by blast+
    have k: "kept' = kept @ filter (\<lambda>a. lowest + 1 < nextOffset (heap l ! a)) (a # as)"
      using ih(1) True by (simp add: n1 not_less)
    have r_a: "removed (Dir l') (heap l' ! a)"
      using ih(11) [of a] rem_a a by simp
    show ?thesis
      apply (intro conjI allI ballI impI)
      subgoal using k .
      subgoal using ih(2) by simp
      subgoal using ih(3) by simp
      subgoal using ih(4) by simp
      subgoal using ih(5) by simp
      subgoal using ih(6) by simp
      subgoal using sh ih(7) by (auto intro: shrinks_trans)
      subgoal for b using ih(8) [of b] n1 [of b] by simp
      subgoal for b using ih(9) [of b] nm1(1) [of b] by simp
      subgoal for b using ih(10) [of b] nm1(2) [of b] by simp
      subgoal for b using ih(11) [of b] rem1 [of b] by simp
      subgoal for b using r_a ih(12) [of b] n1 [of b] by auto
      subgoal for b
        using ih(13) [of b] n1 [of b] True by (auto simp: nth_list_update_any)
      subgoal for n
        using ih(14) [of n] fr1 [of n] True by (simp add: n1 nm1 not_less)
      done
  qed
qed

text \<open>
  Claim C6, amended. When \<open>Log.Truncate(lowest)\<close> returns without error and
  \<open>lowest < 2 ^ 64 - 1\<close>, the new list of segments is the old one restricted to the
  segments whose \<open>nextOffset\<close> is greater than \<open>lowest + 1\<close>, in the old order; at
  \<open>lowest = 2 ^ 64 - 1\<close> the sum wraps to 0 and the segments kept are those with
  \<open>nextOffset > 0\<close>. Every other segment of the old list is closed and its two files
  are gone from the directory. The segments kept are untouched, every file that does
  not bear the name of a file of a segment taken out is in the directory as before, and
  nothing else of the log changes. The second premise says that the pointers in
  \<open>l.segments\<close> point to allocated segments.
\<close>

theorem Log_Truncate_spec:
  assumes "Log_Truncate l lowest = (l', None)"
      and "\<forall>a \<in> set (segments l). a < length (heap l)"
  shows "segments l' = filter (\<lambda>a. above_watermark lowest (nextOffset (heap l ! a))) (segments l) \<and>
     (\<forall>a \<in> set (segments l). a \<notin> set (segments l') \<longrightarrow> removed (Dir l') (heap l' ! a)) \<and>
     (\<forall>a \<in> set (segments l').
        heap l' ! a = heap l ! a \<and> above_watermark lowest (nextOffset (heap l' ! a))) \<and>
     (\<forall>n. (\<forall>a \<in> set (segments l). a \<notin> set (segments l') \<longrightarrow>
               n \<noteq> store_Name (store (heap l ! a)) \<and> n \<noteq> index_Name (index (heap l ! a)))
          \<longrightarrow> map_of (Dir l') n = map_of (Dir l) n) \<and>
     length (heap l') = length (heap l) \<and>
     activeSegment l' = activeSegment l \<and> Config l' = Config l \<and> DirExists l' = DirExists l"
proof -
  from assms(1) obtain l1 kept where
    t: "Truncate_segments l lowest (segments l) [] = (l1, kept, None)" and
    l': "l' = l1\<lparr>segments := kept\<rparr>"
    by (auto simp: Log_Truncate_def split: prod.splits option.splits)
  note s = Truncate_segments_spec [OF t assms(2), unfolded above_watermark_eq]
  have k: "kept = filter (\<lambda>a. above_watermark lowest (nextOffset (heap l ! a))) (segments l)"
    using s by simp
  have mem: "\<And>a. a \<in> set (segments l) \<Longrightarrow>
      (a \<notin> set kept) = (\<not> above_watermark lowest (nextOffset (heap l ! a)))"
    by (simp add: k)
  show ?thesis
    apply (intro conjI ballI allI impI)
    subgoal using k by (simp add: l')
    subgoal for a using s mem [of a] by (simp add: l')
    subgoal for a using s by (simp add: l' k)
    subgoal for a using s by (simp add: l' k)
    subgoal for n
    proof -
      assume h: "\<forall>a\<in>set (segments l). a \<notin> set (segments l') \<longrightarrow>
          n \<noteq> store_Name (store (heap l ! a)) \<and> n \<noteq> index_Name (index (heap l ! a))"
      have "\<forall>a\<in>set (segments l). \<not> above_watermark lowest (nextOffset (heap l ! a)) \<longrightarrow>
          n \<noteq> store_Name (store (heap l ! a)) \<and> n \<noteq> index_Name (index (heap l ! a))"
        using h mem by (simp add: l')
      with s show ?thesis by (simp add: l')
    qed
    subgoal using s by (simp add: l')
    subgoal using s by (simp add: l')
    subgoal using s by (simp add: l')
    subgoal using s by (simp add: l')
    done
qed

lemma scenario_E_facts:
  "segments scenario_E = [0, 1, 2]"
  "length (heap scenario_E) = 3"
  "map nextOffset (heap scenario_E) = [3, 6, 7]"
  "map baseOffset (heap scenario_E) = [0, 3, 6]"
  "map (\<lambda>s. store_Name (store s)) (heap scenario_E) = [''0.store'', ''3.store'', ''6.store'']"
  "map (\<lambda>s. index_Name (index s)) (heap scenario_E) = [''0.index'', ''3.index'', ''6.index'']"
  "map fst (Dir scenario_E)
     = [''0.store'', ''0.index'', ''3.store'', ''3.index'', ''6.store'', ''6.index'']"
  by (simp_all add: scenario_E_def run_defs)

lemma scenario_E_nth:
  "nextOffset (heap scenario_E ! 0) = 3" "nextOffset (heap scenario_E ! Suc 0) = 6"
  "nextOffset (heap scenario_E ! 2) = 7"
  "store_Name (store (heap scenario_E ! 0)) = ''0.store''"
  "store_Name (store (heap scenario_E ! Suc 0)) = ''3.store''"
  "index_Name (index (heap scenario_E ! 0)) = ''0.index''"
  "index_Name (index (heap scenario_E ! Suc 0)) = ''3.index''"
  using scenario_E_facts(2,3,5,6) by (simp_all add: list_eq_iff_nth_eq)

lemma scenario_E_Truncate:
  "snd (Log_Truncate scenario_E 5) = None"
  "map fst (Dir (fst (Log_Truncate scenario_E 5))) = [''6.store'', ''6.index'']"
  "Log_LowestOffset (fst (Log_Truncate scenario_E 5)) = Inr 6"
  "snd (Log_Truncate scenario_E (- 1)) = None"
  "segments (fst (Log_Truncate scenario_E (- 1))) = [0, 1, 2]"
  by (simp_all add: scenario_E_def run_defs)

theorem Log_Truncate_spec_witness:
  "Log_Truncate scenario_E 5 = (fst (Log_Truncate scenario_E 5), None) \<and>
   segments scenario_E = [0, 1, 2] \<and>
   length (heap scenario_E) = 3 \<and>
   map nextOffset (heap scenario_E) = [3, 6, 7] \<and>
   segments (fst (Log_Truncate scenario_E 5)) = [2] \<and>
   removed (Dir (fst (Log_Truncate scenario_E 5))) (heap (fst (Log_Truncate scenario_E 5)) ! 0) \<and>
   removed (Dir (fst (Log_Truncate scenario_E 5))) (heap (fst (Log_Truncate scenario_E 5)) ! 1) \<and>
   heap (fst (Log_Truncate scenario_E 5)) ! 2 = heap scenario_E ! 2 \<and>
   map_of (Dir (fst (Log_Truncate scenario_E 5))) ''6.store'' = map_of (Dir scenario_E) ''6.store'' \<and>
   map_of (Dir (fst (Log_Truncate scenario_E 5))) ''6.index'' = map_of (Dir scenario_E) ''6.index'' \<and>
   map fst (Dir (fst (Log_Truncate scenario_E 5))) = [''6.store'', ''6.index'']"
proof -
  have ok: "Log_Truncate scenario_E 5 = (fst (Log_Truncate scenario_E 5), None)"
    using scenario_E_Truncate(1) by (cases "Log_Truncate scenario_E 5") simp
  have ptr: "\<forall>a \<in> set (segments scenario_E). a < length (heap scenario_E)"
    by (simp add: scenario_E_facts)
  note t = Log_Truncate_spec [OF ok ptr]
  have seg: "segments (fst (Log_Truncate scenario_E 5)) = [2]"
    using t by (simp add: scenario_E_facts scenario_E_nth above_watermark_def)
  have fr: "\<And>n. n \<noteq> ''0.store'' \<Longrightarrow> n \<noteq> ''0.index'' \<Longrightarrow> n \<noteq> ''3.store'' \<Longrightarrow> n \<noteq> ''3.index'' \<Longrightarrow>
      map_of (Dir (fst (Log_Truncate scenario_E 5))) n = map_of (Dir scenario_E) n"
    using t by (simp add: seg scenario_E_facts scenario_E_nth)
  show ?thesis
    using t ok scenario_E_facts(1-3) scenario_E_Truncate(2) fr [of "''6.store''"] fr [of "''6.index''"]
    by (simp add: seg scenario_E_nth)
qed

text \<open>
  The claim as stated fails at \<open>L = 2 ^ 64 - 1\<close>: no next offset of the three segments
  is greater than \<open>L + 1 = 2 ^ 64\<close>, and \<open>Truncate\<close> keeps all three.
\<close>

theorem Log_Truncate_counterexample:
  "Log_Truncate scenario_E (- 1) = (fst (Log_Truncate scenario_E (- 1)), None) \<and>
   segments scenario_E = [0, 1, 2] \<and>
   map (\<lambda>s. unat (nextOffset s)) (heap scenario_E) = [3, 6, 7] \<and>
   unat (- 1 :: uint64) + 1 = 18446744073709551616 \<and>
   segments (fst (Log_Truncate scenario_E (- 1))) = [0, 1, 2] \<and>
   filter (\<lambda>a. unat (- 1 :: uint64) + 1 < unat (nextOffset (heap scenario_E ! a)))
     (segments scenario_E) = []"
proof -
  have ok: "Log_Truncate scenario_E (- 1) = (fst (Log_Truncate scenario_E (- 1)), None)"
    using scenario_E_Truncate(4) by (cases "Log_Truncate scenario_E (- 1)") simp
  have m: "unat (- 1 :: uint64) = 18446744073709551615"
    by (simp add: unsigned_minus_1_eq_mask mask_eq_exp_minus_1)
  have "map (\<lambda>s. unat (nextOffset s)) (heap scenario_E)
          = map unat (map nextOffset (heap scenario_E))"
    by (simp add: comp_def)
  then have u: "map (\<lambda>s. unat (nextOffset s)) (heap scenario_E) = [3, 6, 7]"
    by (simp only: scenario_E_facts(3)) simp
  show ?thesis
    using ok u scenario_E_Truncate(5)
    by (simp add: scenario_E_facts(1) scenario_E_nth m)
qed

end
